theory Spec2Isabelle
  imports Complex_Main
begin

section \<open>Numeric arrays, errors and the environment\<close>

text \<open>
  The model of \<^verbatim>\<open>gensim/models/ldamodel.py\<close>. numpy arrays of floats are lists of
  reals (a vector) and lists of rows (a matrix); arithmetic is that of the real numbers,
  so rounding is not part of the model. Python exceptions are values of \<open>error\<close>;
  \<open>ValueError\<close> and \<open>RuntimeError\<close> carry their message.
  Two constructors mark the border of the model rather than a Python exception:
  \<open>ShapeMismatch\<close> (an elementwise operation on arrays of different shapes, where numpy
  either raises \<^verbatim>\<open>ValueError\<close> or broadcasts; all arrays of one \<^verbatim>\<open>LdaModel\<close> are
  built from its \<^verbatim>\<open>num_topics\<close> and \<^verbatim>\<open>num_terms\<close>) and \<open>NonFinite\<close> (a numpy division
  by zero or a mean of nothing, where numpy yields \<^verbatim>\<open>inf\<close> or \<^verbatim>\<open>nan\<close>, warns and
  goes on).
\<close>

type_synonym vec = "real list"
type_synonym mat = "real list list"

datatype error =
    AssertionError
  | ValueError string
  | ZeroDivisionError
  | IndexError
  | AttributeError
  | TypeError
  | RuntimeError string
  | ShapeMismatch
  | NonFinite

definition same_shape :: "mat \<Rightarrow> mat \<Rightarrow> bool" where
  "same_shape a b = (map length a = map length b)"

definition mat_scale :: "real \<Rightarrow> mat \<Rightarrow> mat" where
  "mat_scale c a = map (map (\<lambda>x. c * x)) a"

definition mat_add :: "mat \<Rightarrow> mat \<Rightarrow> mat" where
  "mat_add a b = map2 (map2 (+)) a b"

definition mat_mul :: "mat \<Rightarrow> mat \<Rightarrow> mat" where
  "mat_mul a b = map2 (map2 (*)) a b"

definition zeros_like :: "mat \<Rightarrow> mat" where
  "zeros_like a = map (map (\<lambda>_. 0)) a"

text \<open>\<^verbatim>\<open>a += b\<close> on two arrays.\<close>

definition mat_iadd :: "mat \<Rightarrow> mat \<Rightarrow> error + mat" where
  "mat_iadd a b = (if same_shape a b then Inr (mat_add a b) else Inl ShapeMismatch)"

text \<open>Python's \<^verbatim>\<open>x / y\<close> on floats raises on a zero divisor; numpy's does not.\<close>

definition py_truediv :: "real \<Rightarrow> real \<Rightarrow> error + real" where
  "py_truediv x y = (if y = 0 then Inl ZeroDivisionError else Inr (x / y))"

definition np_div :: "real \<Rightarrow> real \<Rightarrow> error + real" where
  "np_div x y = (if y = 0 then Inl NonFinite else Inr (x / y))"

definition vec_div :: "vec \<Rightarrow> vec \<Rightarrow> error + vec" where
  "vec_div xs ys = (if 0 \<in> set ys then Inl NonFinite else Inr (map2 (/) xs ys))"

definition np_mean :: "vec \<Rightarrow> error + real" where
  "np_mean xs = (if xs = [] then Inl NonFinite else Inr (sum_list xs / real (length xs)))"

definition dot :: "vec \<Rightarrow> vec \<Rightarrow> real" where
  "dot xs ys = sum_list (map2 (*) xs ys)"

definition outer :: "vec \<Rightarrow> vec \<Rightarrow> mat" where
  "outer a b = map (\<lambda>x. map (\<lambda>y. x * y) b) a"

text \<open>An index into an axis of extent \<open>n\<close>; negative indices count from the end.\<close>

definition np_index :: "nat \<Rightarrow> int \<Rightarrow> error + nat" where
  "np_index n i =
     (if 0 \<le> i \<and> i < int n then Inr (nat i)
      else if - int n \<le> i \<and> i < 0 then Inr (nat (i + int n))
      else Inl IndexError)"

fun map_err :: "('a \<Rightarrow> error + 'b) \<Rightarrow> 'a list \<Rightarrow> error + 'b list" where
  "map_err f [] = Inr []"
| "map_err f (x # xs) =
     (case f x of
        Inl e \<Rightarrow> Inl e
      | Inr y \<Rightarrow> (case map_err f xs of Inl e \<Rightarrow> Inl e | Inr ys \<Rightarrow> Inr (y # ys)))"

text \<open>
  What the module takes from its environment: the interpreter (the module has no
  \<^verbatim>\<open>from __future__ import division\<close>, so \<^verbatim>\<open>/\<close> on two integers is the floor
  quotient under Python 2 and the true quotient under Python 3), scipy's \<^verbatim>\<open>psi\<close>,
  \<^verbatim>\<open>polygamma(1, .)\<close> and \<^verbatim>\<open>gammaln\<close>, and numpy's random generator, whose state
  has type \<open>'r\<close>: one draw of \<^verbatim>\<open>numpy.random.gamma(100., 1. / 100.)\<close> and one of
  \<^verbatim>\<open>numpy.random.rand()\<close>. The theorems hold for every such environment.
\<close>

datatype python = Python2 | Python3

record 'r runtime =
  python :: python
  psi :: "real \<Rightarrow> real"
  polygamma1 :: "real \<Rightarrow> real"
  gammaln :: "real \<Rightarrow> real"
  gamma_sample :: "'r \<Rightarrow> real \<times> 'r"
  rand_sample :: "'r \<Rightarrow> real \<times> 'r"

text \<open>An array of draws is filled element by element, row by row.\<close>

fun draws :: "('r \<Rightarrow> real \<times> 'r) \<Rightarrow> nat \<Rightarrow> 'r \<Rightarrow> vec \<times> 'r" where
  "draws f 0 r = ([], r)"
| "draws f (Suc n) r =
     (case f r of (x, r') \<Rightarrow> (case draws f n r' of (xs, r'') \<Rightarrow> (x # xs, r'')))"

fun draw_matrix :: "('r \<Rightarrow> real \<times> 'r) \<Rightarrow> nat \<Rightarrow> nat \<Rightarrow> 'r \<Rightarrow> mat \<times> 'r" where
  "draw_matrix f 0 k r = ([], r)"
| "draw_matrix f (Suc n) k r =
     (case draws f k r of (row, r') \<Rightarrow>
        (case draw_matrix f n k r' of (rows, r'') \<Rightarrow> (row # rows, r'')))"

text \<open>\<^verbatim>\<open>a / b\<close> on two Python integers.\<close>

definition py_div_int :: "python \<Rightarrow> int \<Rightarrow> int \<Rightarrow> error + real" where
  "py_div_int v a b =
     (if b = 0 then Inl ZeroDivisionError
      else case v of
             Python2 \<Rightarrow> Inr (real_of_int (a div b))
           | Python3 \<Rightarrow> Inr (real_of_int a / real_of_int b))"

text \<open>
  \<^verbatim>\<open>pow(x, y)\<close> on floats. A negative base with a fractional exponent raises
  \<^verbatim>\<open>ValueError\<close> under Python 2 (Python 3 returns a complex number, which the model
  does not follow).
\<close>

definition py_pow :: "real \<Rightarrow> real \<Rightarrow> error + real" where
  "py_pow x y =
     (if 0 < x then Inr (x powr y)
      else if x = 0 then
        (if y < 0 then Inl ZeroDivisionError else if y = 0 then Inr 1 else Inr 0)
      else if y \<in> \<int> then Inr (x powi \<lfloor>y\<rfloor>)
      else Inl (ValueError ''negative number cannot be raised to a fractional power''))"

section \<open>dirichlet_expectation\<close>

text \<open>The branch for a vector (\<^verbatim>\<open>len(alpha.shape) == 1\<close>) and the branch for a matrix.\<close>

definition dirichlet_expectation :: "(real \<Rightarrow> real) \<Rightarrow> vec \<Rightarrow> vec" where
  "dirichlet_expectation ps alpha = map (\<lambda>a. ps a - ps (sum_list alpha)) alpha"

definition dirichlet_expectation2 :: "(real \<Rightarrow> real) \<Rightarrow> mat \<Rightarrow> mat" where
  "dirichlet_expectation2 ps alpha = map (\<lambda>row. map (\<lambda>a. ps a - ps (sum_list row)) row) alpha"

section \<open>LdaState\<close>

text \<open>
  \<^verbatim>\<open>eta\<close> is a float, a column vector of shape \<open>(num_topics, 1)\<close> or a matrix of the
  shape of \<^verbatim>\<open>sstats\<close> with more than one column. \<^verbatim>\<open>LdaState.__init__\<close> stores
  the reference it is given, and \<^verbatim>\<open>update_eta\<close> changes the array in place, so a
  state holds the address of its \<^verbatim>\<open>eta\<close> in a store.
\<close>

datatype prior = Scalar real | Column vec | Full mat

type_synonym addr = nat
type_synonym store = "addr \<Rightarrow> prior"

record LdaState =
  eta :: addr
  sstats :: mat
  numdocs :: int

definition LdaState_init :: "addr \<Rightarrow> mat \<Rightarrow> LdaState" where
  \<comment> \<open>\<^verbatim>\<open>LdaState(eta, shape)\<close>, the shape given by an array that has it\<close>
  "LdaState_init e like = \<lparr>eta = e, sstats = zeros_like like, numdocs = 0\<rparr>"

definition reset :: "LdaState \<Rightarrow> LdaState" where
  "reset self = self\<lparr>sstats := zeros_like (sstats self), numdocs := 0\<rparr>"


text \<open>
  The two \<^verbatim>\<open>scale\<close> computations of \<^verbatim>\<open>blend\<close>:
  \<^verbatim>\<open>if n == 0 or targetsize == n: scale = 1.0 else: scale = 1.0 * targetsize / n\<close>.
\<close>

definition blend_scale :: "int \<Rightarrow> int \<Rightarrow> error + real" where
  "blend_scale targetsize n =
     (if n = 0 \<or> targetsize = n then Inr 1
      else py_truediv (1 * real_of_int targetsize) (real_of_int n))"

definition blend :: "LdaState \<Rightarrow> real \<Rightarrow> LdaState option \<Rightarrow> int option \<Rightarrow> error + LdaState" where
  "blend self rhot other targetsize =
     (case other of
        None \<Rightarrow> Inl AssertionError
      | Some other \<Rightarrow>
          (let targetsize = (case targetsize of None \<Rightarrow> numdocs self | Some t \<Rightarrow> t) in
           case blend_scale targetsize (numdocs self) of
             Inl e \<Rightarrow> Inl e
           | Inr scale \<Rightarrow>
               (let s1 = mat_scale ((1 - rhot) * scale) (sstats self) in
                case blend_scale targetsize (numdocs other) of
                  Inl e \<Rightarrow> Inl e
                | Inr scale \<Rightarrow>
                    (case mat_iadd s1 (mat_scale (rhot * scale) (sstats other)) of
                       Inl e \<Rightarrow> Inl e
                     | Inr s2 \<Rightarrow> Inr (self\<lparr>sstats := s2, numdocs := targetsize\<rparr>)))))"

text \<open>\<^verbatim>\<open>self.eta + self.sstats\<close>, the prior stretched over the matrix.\<close>

definition prior_add :: "prior \<Rightarrow> mat \<Rightarrow> error + mat" where
  "prior_add e s =
     (case e of
        Scalar x \<Rightarrow> Inr (map (map (\<lambda>y. x + y)) s)
      | Column c \<Rightarrow>
          (if length c = length s then Inr (map2 (\<lambda>x row. map (\<lambda>y. x + y) row) c s)
           else Inl ShapeMismatch)
      | Full m \<Rightarrow> (if same_shape m s then Inr (mat_add m s) else Inl ShapeMismatch))"

definition get_lambda :: "store \<Rightarrow> LdaState \<Rightarrow> error + mat" where
  "get_lambda h self = prior_add (h (eta self)) (sstats self)"

definition get_Elogbeta :: "(real \<Rightarrow> real) \<Rightarrow> store \<Rightarrow> LdaState \<Rightarrow> error + mat" where
  "get_Elogbeta ps h self =
     (case get_lambda h self of
        Inl e \<Rightarrow> Inl e
      | Inr l \<Rightarrow> Inr (dirichlet_expectation2 ps l))"

section \<open>The numeric kernels of inference\<close>

text \<open>A document is a list of pairs \<open>(id, cnt)\<close>.\<close>

type_synonym document = "(int \<times> real) list"

text \<open>
  \<^verbatim>\<open>numpy.dot(expElogthetad, expElogbetad) + 1e-100\<close>. The slice
  \<^verbatim>\<open>expElogbetad = self.expElogbeta[:, ids]\<close> is kept transposed, as the list of its
  columns: one vector of length \<^verbatim>\<open>num_topics\<close> for each term of the document.
\<close>

definition phinorm_of :: "vec \<Rightarrow> mat \<Rightarrow> vec" where
  "phinorm_of expElogthetad expElogbetadT =
     map (\<lambda>col. dot expElogthetad col + 1 / 10 ^ 100) expElogbetadT"

text \<open>\<^verbatim>\<open>numpy.dot(v, expElogbetad.T)\<close>, a vector of length \<open>k\<close>.\<close>

definition vec_mat_dot :: "nat \<Rightarrow> vec \<Rightarrow> mat \<Rightarrow> vec" where
  "vec_mat_dot k v rowsT =
     foldr (\<lambda>(x, row) acc. map2 (+) (map (\<lambda>y. x * y) row) acc) (zip v rowsT) (replicate k 0)"

text \<open>
  The body of the loop \<^verbatim>\<open>for _ in xrange(self.iterations)\<close>, up to the test. The loop
  carries \<^verbatim>\<open>gammad\<close>, \<^verbatim>\<open>expElogthetad\<close> and \<^verbatim>\<open>phinorm\<close>; the body returns them
  with \<^verbatim>\<open>meanchange\<close>.
\<close>

type_synonym doc_vars = "vec \<times> vec \<times> vec"

definition gamma_body ::
  "(real \<Rightarrow> real) \<Rightarrow> vec \<Rightarrow> vec \<Rightarrow> mat \<Rightarrow> doc_vars \<Rightarrow> error + (doc_vars \<times> real)" where
  "gamma_body ps alpha cts expElogbetadT v =
     (case v of (gammad, expElogthetad, phinorm) \<Rightarrow>
        (let lastgamma = gammad in
         case vec_div cts phinorm of
           Inl e \<Rightarrow> Inl e
         | Inr q \<Rightarrow>
             (let gammad = map2 (+) alpha
                    (map2 (*) expElogthetad (vec_mat_dot (length alpha) q expElogbetadT));
                  Elogthetad = dirichlet_expectation ps gammad;
                  expElogthetad = map exp Elogthetad;
                  phinorm = phinorm_of expElogthetad expElogbetadT
              in case np_mean (map abs (map2 (-) gammad lastgamma)) of
                   Inl e \<Rightarrow> Inl e
                 | Inr meanchange \<Rightarrow> Inr ((gammad, expElogthetad, phinorm), meanchange))))"

text \<open>The loop: the flag of the result tells whether it ended by \<^verbatim>\<open>break\<close>.\<close>

fun gamma_loop ::
  "(real \<Rightarrow> real) \<Rightarrow> vec \<Rightarrow> vec \<Rightarrow> mat \<Rightarrow> real \<Rightarrow> nat \<Rightarrow> doc_vars \<Rightarrow> error + (doc_vars \<times> bool)" where
  "gamma_loop ps alpha cts expElogbetadT threshold 0 v = Inr (v, False)"
| "gamma_loop ps alpha cts expElogbetadT threshold (Suc n) v =
     (case gamma_body ps alpha cts expElogbetadT v of
        Inl e \<Rightarrow> Inl e
      | Inr (v', meanchange) \<Rightarrow>
          (if meanchange < threshold then Inr (v', True)
           else gamma_loop ps alpha cts expElogbetadT threshold n v'))"

text \<open>
  \<^verbatim>\<open>sstats[:, ids] += m\<close>: numpy reads the columns, adds and writes them back in
  order, so of two equal ids the later one is kept.
\<close>

definition scatter_add :: "mat \<Rightarrow> nat list \<Rightarrow> mat \<Rightarrow> mat" where
  "scatter_add s idx m =
     map2 (\<lambda>row vals. foldl (\<lambda>r (i, x). r[i := row ! i + x]) row (zip idx vals)) s m"

section \<open>LdaModel\<close>

text \<open>
  The attributes of an \<^verbatim>\<open>LdaModel\<close> that the estimation code reads or writes. The model
  is the serial one: \<^verbatim>\<open>self.dispatcher\<close> is \<^verbatim>\<open>None\<close> and \<^verbatim>\<open>self.numworkers\<close>
  is \<open>1\<close>. \<^verbatim>\<open>self.eta\<close> is the address of the array (or float) that
  \<^verbatim>\<open>self.state.eta\<close> also refers to after \<^verbatim>\<open>__init__\<close>.
\<close>

record LdaModel =
  num_topics :: nat
  num_terms :: nat
  chunksize :: int
  decay :: real
  offset :: real
  num_updates :: int
  passes :: int
  update_every :: int
  eval_every :: "int option"
  max_bound_iterations :: int
  bound_improvement_threshold :: real
  optimize_alpha :: bool
  alpha :: vec
  optimize_eta :: bool
  eta :: addr
  iterations :: int
  gamma_threshold :: real
  state :: LdaState
  expElogbeta :: mat

definition numworkers :: int where
  "numworkers = 1"

text \<open>
  The program state: the model object, the store of the \<^verbatim>\<open>eta\<close> objects, the state of
  numpy's random generator, and the values of \<^verbatim>\<open>rho\<close> that \<^verbatim>\<open>do_mstep\<close> has written
  to the log (\<^verbatim>\<open>logger.info("topic diff=%f, rho=%f", ...)\<close>), oldest first. No other
  log line is modelled.
\<close>

record 'r world =
  model :: LdaModel
  heap :: store
  rng :: 'r
  rho_log :: "real list"

definition sync_state :: "'r runtime \<Rightarrow> 'r world \<Rightarrow> error + 'r world" where
  "sync_state rt w =
     (case get_Elogbeta (psi rt) (heap w) (state (model w)) of
        Inl e \<Rightarrow> Inl e
      | Inr Elogbeta \<Rightarrow> Inr (w\<lparr>model := (model w)\<lparr>expElogbeta := map (map exp) Elogbeta\<rparr>\<rparr>))"

section \<open>inference\<close>

text \<open>
  The arrays of one model have the shapes \<^verbatim>\<open>__init__\<close> gives them: \<^verbatim>\<open>alpha\<close> of
  length \<^verbatim>\<open>num_topics\<close>, \<^verbatim>\<open>expElogbeta\<close> of shape \<open>(num_topics, num_terms)\<close>.
\<close>

definition well_shaped :: "LdaModel \<Rightarrow> bool" where
  "well_shaped self =
     (length (alpha self) = num_topics self \<and>
      map length (expElogbeta self) = replicate (num_topics self) (num_terms self))"

text \<open>
  The body of \<^verbatim>\<open>for d, doc in enumerate(chunk)\<close> up to \<^verbatim>\<open>gamma[d, :] = gammad\<close>:
  the result is the final \<^verbatim>\<open>gammad\<close>, \<^verbatim>\<open>expElogthetad\<close> and \<^verbatim>\<open>phinorm\<close>, the
  \<^verbatim>\<open>break\<close> flag, and the document's \<^verbatim>\<open>ids\<close> (as positions) and \<^verbatim>\<open>cts\<close>.
\<close>

definition infer_doc ::
  "(real \<Rightarrow> real) \<Rightarrow> LdaModel \<Rightarrow> document \<Rightarrow> vec \<Rightarrow> vec
     \<Rightarrow> error + (doc_vars \<times> bool \<times> nat list \<times> vec)" where
  "infer_doc ps self doc gammad expElogthetad =
     (let ids = map fst doc; cts = map snd doc in
      case map_err (np_index (num_terms self)) ids of
        Inl e \<Rightarrow> Inl e
      | Inr idx \<Rightarrow>
          (let expElogbetadT = map (\<lambda>i. map (\<lambda>row. row ! i) (expElogbeta self)) idx;
               phinorm = phinorm_of expElogthetad expElogbetadT
           in case gamma_loop ps (alpha self) cts expElogbetadT (gamma_threshold self)
                     (nat (iterations self)) (gammad, expElogthetad, phinorm) of
                Inl e \<Rightarrow> Inl e
              | Inr (v, converged) \<Rightarrow> Inr (v, converged, idx, cts)))"

fun inference_docs ::
  "(real \<Rightarrow> real) \<Rightarrow> LdaModel \<Rightarrow> (document \<times> vec \<times> vec) list \<Rightarrow> mat option
     \<Rightarrow> error + (mat \<times> mat option \<times> nat)" where
  "inference_docs ps self [] sst = Inr ([], sst, 0)"
| "inference_docs ps self ((doc, gammad, expElogthetad) # rest) sst =
     (case infer_doc ps self doc gammad expElogthetad of
        Inl e \<Rightarrow> Inl e
      | Inr ((gammad, expElogthetad, phinorm), converged, idx, cts) \<Rightarrow>
          (case (case sst of
                   None \<Rightarrow> Inr None
                 | Some s \<Rightarrow>
                     (case vec_div cts phinorm of
                        Inl e \<Rightarrow> Inl e
                      | Inr q \<Rightarrow> Inr (Some (scatter_add s idx (outer expElogthetad q))))) of
             Inl e \<Rightarrow> Inl e
           | Inr sst \<Rightarrow>
               (case inference_docs ps self rest sst of
                  Inl e \<Rightarrow> Inl e
                | Inr (gamma, sst, n) \<Rightarrow>
                    Inr (gammad # gamma, sst, n + (if converged then 1 else 0)))))"

text \<open>
  \<^verbatim>\<open>inference(chunk, collect_sstats)\<close>: the result is the pair \<^verbatim>\<open>(gamma, sstats)\<close> and
  the program state after the call.
\<close>

definition inference ::
  "'r runtime \<Rightarrow> 'r world \<Rightarrow> document list \<Rightarrow> bool \<Rightarrow> error + ((mat \<times> mat option) \<times> 'r world)" where
  "inference rt w chunk collect_sstats =
     (let self = model w in
      if \<not> well_shaped self then Inl ShapeMismatch
      else case draw_matrix (gamma_sample rt) (length chunk) (num_topics self) (rng w) of
        (gamma, r) \<Rightarrow>
          (let Elogtheta = dirichlet_expectation2 (psi rt) gamma;
               expElogtheta = map (map exp) Elogtheta;
               sst = (if collect_sstats then Some (zeros_like (expElogbeta self)) else None)
           in case inference_docs (psi rt) self (zip chunk (zip gamma expElogtheta)) sst of
                Inl e \<Rightarrow> Inl e
              | Inr (gamma, sst, converged) \<Rightarrow>
                  Inr ((gamma, map_option (\<lambda>s. mat_mul s (expElogbeta self)) sst),
                       w\<lparr>rng := r\<rparr>)))"

text \<open>
  \<^verbatim>\<open>do_estep(chunk, state)\<close>: with \<^verbatim>\<open>state=None\<close> the statistics go to
  \<^verbatim>\<open>self.state\<close>, otherwise to the state object given. The result is \<^verbatim>\<open>gamma\<close>,
  the state object as updated, and the program state.
\<close>

definition estep_accumulate :: "LdaState \<Rightarrow> mat option \<Rightarrow> mat \<Rightarrow> error + LdaState" where
  "estep_accumulate st sst gamma =
     (case sst of
        None \<Rightarrow> Inl TypeError
      | Some sst \<Rightarrow>
          (case mat_iadd (sstats st) sst of
             Inl e \<Rightarrow> Inl e
           | Inr s \<Rightarrow> Inr (st\<lparr>sstats := s, numdocs := numdocs st + int (length gamma)\<rparr>)))"

definition do_estep ::
  "'r runtime \<Rightarrow> 'r world \<Rightarrow> document list \<Rightarrow> LdaState option
     \<Rightarrow> error + ((mat \<times> LdaState) \<times> 'r world)" where
  "do_estep rt w chunk st =
     (case inference rt w chunk True of
        Inl e \<Rightarrow> Inl e
      | Inr ((gamma, sst), w) \<Rightarrow>
          (case st of
             None \<Rightarrow>
               (case estep_accumulate (state (model w)) sst gamma of
                  Inl e \<Rightarrow> Inl e
                | Inr st' \<Rightarrow> Inr ((gamma, st'), w\<lparr>model := (model w)\<lparr>state := st'\<rparr>\<rparr>))
           | Some other \<Rightarrow>
               (case estep_accumulate other sst gamma of
                  Inl e \<Rightarrow> Inl e
                | Inr st' \<Rightarrow> Inr ((gamma, st'), w))))"

section \<open>update_alpha, update_eta and do_mstep\<close>

text \<open>
  \<^verbatim>\<open>sum(rows) / N\<close> with \<^verbatim>\<open>N = float(len(rows))\<close>: the sum of no rows is the
  integer \<open>0\<close>, and \<^verbatim>\<open>0 / 0.0\<close> raises.
\<close>

definition mean_rows :: "vec list \<Rightarrow> error + vec" where
  "mean_rows rows =
     (case rows of
        [] \<Rightarrow> Inl ZeroDivisionError
      | r # rs \<Rightarrow> Inr (map (\<lambda>x. x / real (length rows)) (foldl (map2 (+)) r rs)))"

text \<open>
  The Newton step that \<^verbatim>\<open>update_alpha\<close> and \<^verbatim>\<open>update_eta\<close> both spell out, from
  \<^verbatim>\<open>gradf = ...\<close> to \<^verbatim>\<open>dalpha = -(gradf - b) / q\<close>.
\<close>

definition newton_step ::
  "(real \<Rightarrow> real) \<Rightarrow> (real \<Rightarrow> real) \<Rightarrow> vec \<Rightarrow> vec \<Rightarrow> real \<Rightarrow> error + vec" where
  "newton_step ps pg prior logphat N =
     (if length prior \<noteq> length logphat then Inl ShapeMismatch
      else
       (let gradf = map2 (\<lambda>a l. N * (ps (sum_list prior) - ps a + l)) prior logphat;
            c = N * pg (sum_list prior);
            q = map (\<lambda>a. - N * pg a) prior
        in case vec_div gradf q of
             Inl e \<Rightarrow> Inl e
           | Inr gq \<Rightarrow>
               (case np_div 1 c of
                  Inl e \<Rightarrow> Inl e
                | Inr ic \<Rightarrow>
                    (case vec_div (map (\<lambda>_. 1) q) q of
                       Inl e \<Rightarrow> Inl e
                     | Inr iq \<Rightarrow>
                         (case np_div (sum_list gq) (ic + sum_list iq) of
                            Inl e \<Rightarrow> Inl e
                          | Inr b \<Rightarrow> vec_div (map (\<lambda>g. - (g - b)) gradf) q)))))"

text \<open>\<^verbatim>\<open>all(rho * d + prior > 0)\<close>.\<close>

definition step_positive :: "real \<Rightarrow> vec \<Rightarrow> vec \<Rightarrow> bool" where
  "step_positive rhot d prior = list_all (\<lambda>x. 0 < x) (map2 (\<lambda>d a. rhot * d + a) d prior)"

text \<open>The Newton step of \<^verbatim>\<open>update_alpha\<close>, up to \<^verbatim>\<open>dalpha\<close>.\<close>

definition alpha_step :: "'r runtime \<Rightarrow> LdaModel \<Rightarrow> mat \<Rightarrow> error + vec" where
  "alpha_step rt self gammat =
     (let N = real (length gammat) in
      case mean_rows (map (dirichlet_expectation (psi rt)) gammat) of
        Inl e \<Rightarrow> Inl e
      | Inr logphat \<Rightarrow> newton_step (psi rt) (polygamma1 rt) (alpha self) logphat N)"

text \<open>\<^verbatim>\<open>update_alpha(gammat, rho)\<close>: the result is the value returned and the program state.\<close>

definition update_alpha ::
  "'r runtime \<Rightarrow> 'r world \<Rightarrow> mat \<Rightarrow> real \<Rightarrow> error + (vec \<times> 'r world)" where
  "update_alpha rt w gammat rhot =
     (let self = model w in
      case alpha_step rt self gammat of
        Inl e \<Rightarrow> Inl e
      | Inr dalpha \<Rightarrow>
          (if step_positive rhot dalpha (alpha self)
           then (let a = map2 (\<lambda>a d. a + rhot * d) (alpha self) dalpha
                 in Inr (a, w\<lparr>model := self\<lparr>alpha := a\<rparr>\<rparr>))
           else Inr (alpha self, w)))"

text \<open>The columns of a matrix with \<open>n\<close> columns (\<^verbatim>\<open>lambdat.transpose()\<close>).\<close>

definition columns :: "nat \<Rightarrow> mat \<Rightarrow> mat" where
  "columns n m = map (\<lambda>j. map (\<lambda>row. row ! j) m) [0..<n]"

text \<open>
  \<^verbatim>\<open>update_eta(lambdat, rho)\<close>. A float has no \<^verbatim>\<open>shape\<close>; \<^verbatim>\<open>lambdat.shape[1]\<close>
  is \<^verbatim>\<open>num_terms\<close>. The array is changed in place, at its address.
\<close>

definition update_eta ::
  "'r runtime \<Rightarrow> 'r world \<Rightarrow> mat \<Rightarrow> real \<Rightarrow> error + (prior \<times> 'r world)" where
  "update_eta rt w lambdat rhot =
     (let self = model w in
      case heap w (eta self) of
        Scalar x \<Rightarrow> Inl AttributeError
      | Full m \<Rightarrow>
          Inl (ValueError ''Can't use update_eta with eta matrices, only colunmn vectors.'')
      | Column ev \<Rightarrow>
          (let N = real (num_terms self) in
           case mean_rows (map (dirichlet_expectation (psi rt))
                  (columns (num_terms self) lambdat)) of
             Inl e \<Rightarrow> Inl e
           | Inr logphat \<Rightarrow>
               (if length logphat \<noteq> num_topics self
                then Inl (ValueError ''total size of new array must be unchanged'')
                else case newton_step (psi rt) (polygamma1 rt) ev logphat N of
                  Inl e \<Rightarrow> Inl e
                | Inr deta \<Rightarrow>
                    (if step_positive rhot deta ev
                     then (let ev' = Column (map2 (\<lambda>a d. a + rhot * d) ev deta)
                           in Inr (ev', w\<lparr>heap := (heap w)(eta self := ev')\<rparr>))
                     else Inr (Column ev, w)))))"

text \<open>
  \<^verbatim>\<open>print_topics(5)\<close> writes to the log, which is not modelled; when the model has
  more than 5 topics it draws \<^verbatim>\<open>numpy.random.rand(len(self.alpha))\<close> on the way.
\<close>

definition print_topics :: "'r runtime \<Rightarrow> 'r world \<Rightarrow> 'r world" where
  "print_topics rt w =
     (if 5 < num_topics (model w)
      then w\<lparr>rng := snd (draws (rand_sample rt) (length (alpha (model w))) (rng w))\<rparr>
      else w)"

text \<open>
  \<^verbatim>\<open>do_mstep(rho, other, extra_pass)\<close>. \<^verbatim>\<open>diff\<close> is only written to the log; of its
  computation the model keeps the call of \<^verbatim>\<open>get_Elogbeta\<close>.
\<close>

definition do_mstep ::
  "'r runtime \<Rightarrow> 'r world \<Rightarrow> real \<Rightarrow> LdaState \<Rightarrow> bool \<Rightarrow> error + 'r world" where
  "do_mstep rt w rhot other extra_pass =
     (case blend (state (model w)) rhot (Some other) None of
        Inl e \<Rightarrow> Inl e
      | Inr st \<Rightarrow>
          (let w = w\<lparr>model := (model w)\<lparr>state := st\<rparr>\<rparr> in
           case get_Elogbeta (psi rt) (heap w) (state (model w)) of
             Inl e \<Rightarrow> Inl e
           | Inr Elogbeta \<Rightarrow>
               (case sync_state rt w of
                  Inl e \<Rightarrow> Inl e
                | Inr w \<Rightarrow>
                    (let w = print_topics rt w;
                         w = w\<lparr>rho_log := rho_log w @ [rhot]\<rparr>
                     in case (if optimize_eta (model w)
                              then (case get_lambda (heap w) (state (model w)) of
                                      Inl e \<Rightarrow> Inl e
                                    | Inr lambdat \<Rightarrow>
                                        (case update_eta rt w lambdat rhot of
                                           Inl e \<Rightarrow> Inl e
                                         | Inr (e, w) \<Rightarrow> Inr w))
                              else Inr w) of
                          Inl e \<Rightarrow> Inl e
                        | Inr w \<Rightarrow>
                            (if \<not> extra_pass
                             then Inr (w\<lparr>model := (model w)
                                    \<lparr>num_updates := num_updates (model w) + numdocs other\<rparr>\<rparr>)
                             else Inr w)))))"

section \<open>bound and log_perplexity\<close>

definition logsumexp :: "vec \<Rightarrow> error + real" where
  "logsumexp a = (if a = [] then Inl NonFinite else Inr (ln (sum_list (map exp a))))"

text \<open>The prior stretched to the shape of a matrix.\<close>

definition prior_like :: "prior \<Rightarrow> mat \<Rightarrow> error + mat" where
  "prior_like e m =
     (case e of
        Scalar x \<Rightarrow> Inr (map (map (\<lambda>_. x)) m)
      | Column c \<Rightarrow>
          (if length c = length m then Inr (map2 (\<lambda>x row. map (\<lambda>_. x) row) c m)
           else Inl ShapeMismatch)
      | Full f \<Rightarrow> (if same_shape f m then Inr f else Inl ShapeMismatch))"

text \<open>
  The terms that one document adds to \<^verbatim>\<open>score\<close>. With \<^verbatim>\<open>gamma=None\<close> the
  document's \<^verbatim>\<open>gammad\<close> is inferred, which draws from the random generator.
\<close>

definition bound_doc ::
  "'r runtime \<Rightarrow> 'r world \<Rightarrow> mat \<Rightarrow> mat option \<Rightarrow> nat \<Rightarrow> document \<Rightarrow> error + (real \<times> 'r world)" where
  "bound_doc rt w Elogbeta gamma d doc =
     (case (case gamma of
              None \<Rightarrow>
                (case inference rt w [doc] False of
                   Inl e \<Rightarrow> Inl e
                 | Inr ((g, _), w) \<Rightarrow>
                     (case g of [gammad] \<Rightarrow> Inr (gammad, w) | _ \<Rightarrow> Inl ShapeMismatch))
            | Some g \<Rightarrow>
                (if d < length g then Inr (g ! d, w) else Inl IndexError)) of
        Inl e \<Rightarrow> Inl e
      | Inr (gammad, w) \<Rightarrow>
          (let self = model w;
               Elogthetad = dirichlet_expectation (psi rt) gammad
           in case map_err (\<lambda>(i, cnt).
                     case np_index (num_terms self) i of
                       Inl e \<Rightarrow> Inl e
                     | Inr j \<Rightarrow>
                         (case logsumexp (map2 (+) Elogthetad (map (\<lambda>row. row ! j) Elogbeta)) of
                            Inl e \<Rightarrow> Inl e
                          | Inr x \<Rightarrow> Inr (cnt * x))) doc of
                Inl e \<Rightarrow> Inl e
              | Inr terms \<Rightarrow>
                  Inr (sum_list terms
                       + sum_list (map2 (*) (map2 (-) (alpha self) gammad) Elogthetad)
                       + sum_list (map2 (-) (map (gammaln rt) gammad)
                                            (map (gammaln rt) (alpha self)))
                       + (gammaln rt (sum_list (alpha self)) - gammaln rt (sum_list gammad)),
                       w)))"

fun bound_docs ::
  "'r runtime \<Rightarrow> 'r world \<Rightarrow> mat \<Rightarrow> mat option \<Rightarrow> nat \<Rightarrow> document list \<Rightarrow> real
     \<Rightarrow> error + (real \<times> 'r world)" where
  "bound_docs rt w Elogbeta gamma d [] score = Inr (score, w)"
| "bound_docs rt w Elogbeta gamma d (doc # rest) score =
     (case bound_doc rt w Elogbeta gamma d doc of
        Inl e \<Rightarrow> Inl e
      | Inr (x, w) \<Rightarrow> bound_docs rt w Elogbeta gamma (Suc d) rest (score + x))"

definition bound ::
  "'r runtime \<Rightarrow> 'r world \<Rightarrow> document list \<Rightarrow> mat option \<Rightarrow> real \<Rightarrow> error + (real \<times> 'r world)" where
  "bound rt w corpus gamma subsample_ratio =
     (case get_lambda (heap w) (state (model w)) of
        Inl e \<Rightarrow> Inl e
      | Inr lam \<Rightarrow>
          (let Elogbeta = dirichlet_expectation2 (psi rt) lam in
           case bound_docs rt w Elogbeta gamma 0 corpus 0 of
             Inl e \<Rightarrow> Inl e
           | Inr (score, w) \<Rightarrow>
               (let self = model w; e = heap w (eta self) in
                case prior_like e lam of
                  Inl e \<Rightarrow> Inl e
                | Inr em \<Rightarrow>
                    (let score = score * subsample_ratio;
                         score = score + sum_list (map sum_list
                                   (mat_mul (map2 (map2 (-)) em lam) Elogbeta));
                         score = score + sum_list (map sum_list
                                   (map2 (map2 (-)) (map (map (gammaln rt)) lam)
                                                    (map (map (gammaln rt)) em)));
                         sum_eta = (case e of
                                      Scalar x \<Rightarrow> map (\<lambda>_. x * real (num_terms self)) lam
                                    | Column c \<Rightarrow> c
                                    | Full f \<Rightarrow> map sum_list f)
                     in Inr (score + sum_list (map2 (-) (map (gammaln rt) sum_eta)
                                                 (map (gammaln rt) (map sum_list lam))),
                             w)))))"

definition log_perplexity ::
  "'r runtime \<Rightarrow> 'r world \<Rightarrow> document list \<Rightarrow> int option \<Rightarrow> error + (real \<times> 'r world)" where
  "log_perplexity rt w chunk total_docs =
     (let total_docs = (case total_docs of None \<Rightarrow> int (length chunk) | Some t \<Rightarrow> t);
          corpus_words = sum_list (map (\<lambda>document. sum_list (map snd document)) chunk)
      in case py_truediv (1 * real_of_int total_docs) (real (length chunk)) of
           Inl e \<Rightarrow> Inl e
         | Inr subsample_ratio \<Rightarrow>
             (case bound rt w chunk None subsample_ratio of
                Inl e \<Rightarrow> Inl e
              | Inr (b, w) \<Rightarrow>
                  (case np_div b (subsample_ratio * corpus_words) of
                     Inl e \<Rightarrow> Inl e
                   | Inr perwordbound \<Rightarrow> Inr (perwordbound, w))))"

section \<open>update\<close>

text \<open>
  Modelled from the spec: \<^verbatim>\<open>utils.grouper\<close> is not among the sources. The
  specification has the corpus cut into chunks of \<^verbatim>\<open>chunksize\<close> documents (``for each
  chunk from corpus (chunksize)'', a chunk's ``size bounded by chunksize''): successive
  runs of \<^verbatim>\<open>chunksize\<close> documents, the last one shorter when the corpus does not divide
  evenly. With a chunk size below \<open>1\<close> no chunk is formed.
\<close>

function grouper :: "'a list \<Rightarrow> nat \<Rightarrow> 'a list list" where
  "grouper xs n = (if n = 0 \<or> xs = [] then [] else take n xs # grouper (drop n xs) n)"
  by pat_completeness auto
termination
  by (relation "measure (\<lambda>(xs, n). length xs)") auto

declare grouper.simps [simp del]

text \<open>The keyword arguments of \<^verbatim>\<open>update\<close>; \<open>None\<close> where the caller gives none.\<close>

record update_kwargs =
  kw_chunksize :: "int option"
  kw_decay :: "real option"
  kw_offset :: "real option"
  kw_passes :: "int option"
  kw_update_every :: "int option"
  kw_eval_every :: "int option"
  kw_iterations :: "int option"
  kw_gamma_threshold :: "real option"
  kw_max_bound_iterations :: "int option"
  kw_bound_improvement_threshold :: "real option"

text \<open>
  The local variables of \<^verbatim>\<open>update\<close> once the defaults are in. (\<^verbatim>\<open>iterations\<close> and
  \<^verbatim>\<open>gamma_threshold\<close> are only written to the log: \<^verbatim>\<open>inference\<close> reads the
  attributes of \<^verbatim>\<open>self\<close>.) From here on the names \<open>chunksize\<close>, \<open>decay\<close>, \<dots> are
  these local variables, and the attributes are written \<open>LdaModel.chunksize self\<close>.
\<close>

record locals =
  lencorpus :: int
  chunksize :: int
  decay :: real
  offset :: real
  passes :: int
  update_every :: int
  eval_every :: "int option"
  max_bound_iterations :: int
  bound_improvement_threshold :: real

text \<open>\<^verbatim>\<open>(eval_every or 0)\<close>.\<close>

definition eval_every_or_0 :: "locals \<Rightarrow> int" where
  "eval_every_or_0 l = (case eval_every l of None \<Rightarrow> 0 | Some e \<Rightarrow> e)"

definition msg_online :: string where
  "msg_online = ''It doesn't make sense to use max_bound_iterations in online mode.''"

definition msg_at_least_1 :: string where
  "msg_at_least_1 = ''max_bound_iterations must be at least 1.''"

definition msg_eval_every :: string where
  "msg_eval_every = ''eval_every must be set (usually to 1) for max_bound_iterations > 1''"

text \<open>
  The statements of \<^verbatim>\<open>update\<close> between \<^verbatim>\<open>self.state.numdocs += lencorpus\<close> and the
  loop over the passes: the checks of the options, in their order, and
  \<^verbatim>\<open>updates_per_pass = max(1, lencorpus / updateafter)\<close>, which divides. The rest
  of these statements writes to the log.
\<close>

definition update_entry :: "locals \<Rightarrow> error + unit" where
  "update_entry l =
     (if update_every l \<noteq> 0 \<and> max_bound_iterations l > 1 then Inl (ValueError msg_online)
      else if max_bound_iterations l < 1 then Inl (ValueError msg_at_least_1)
      else if max_bound_iterations l > 1 \<and> \<not> eval_every_or_0 l > 0
        then Inl (ValueError msg_eval_every)
      else
        (let updateafter =
               (if update_every l \<noteq> 0
                then min (lencorpus l) (update_every l * numworkers * chunksize l)
                else lencorpus l)
         in if updateafter = 0 then Inl ZeroDivisionError else Inr ()))"

text \<open>The closure \<^verbatim>\<open>rho()\<close>, which reads \<^verbatim>\<open>pass_\<close> and \<^verbatim>\<open>self.num_updates\<close>.\<close>

definition rho :: "'r runtime \<Rightarrow> locals \<Rightarrow> nat \<Rightarrow> 'r world \<Rightarrow> error + real" where
  "rho rt l pass_no w =
     (case py_div_int (python rt) (num_updates (model w)) (chunksize l) of
        Inl e \<Rightarrow> Inl e
      | Inr q \<Rightarrow> py_pow (offset l + real pass_no + q) (- decay l))"

text \<open>\<^verbatim>\<open>eval_every and ((reallen == lencorpus) or ((chunk_no + 1) % (eval_every * self.numworkers) == 0))\<close>\<close>

definition eval_due :: "locals \<Rightarrow> int \<Rightarrow> int \<Rightarrow> bool" where
  "eval_due l reallen chunk_no =
     (case eval_every l of
        None \<Rightarrow> False
      | Some e \<Rightarrow> e \<noteq> 0 \<and> (reallen = lencorpus l \<or> (chunk_no + 1) mod (e * numworkers) = 0))"

text \<open>\<^verbatim>\<open>update_every and (chunk_no + 1) % (update_every * self.numworkers) == 0\<close>\<close>

definition mstep_due :: "locals \<Rightarrow> int \<Rightarrow> bool" where
  "mstep_due l chunk_no =
     (update_every l \<noteq> 0 \<and> (chunk_no + 1) mod (update_every l * numworkers) = 0)"

text \<open>\<^verbatim>\<open>self.do_mstep(rho(), other, pass_ > 0)\<close>\<close>

definition mstep_call ::
  "'r runtime \<Rightarrow> locals \<Rightarrow> nat \<Rightarrow> LdaState \<Rightarrow> 'r world \<Rightarrow> error + 'r world" where
  "mstep_call rt l pass_no other w =
     (case rho rt l pass_no w of
        Inl e \<Rightarrow> Inl e
      | Inr rhot \<Rightarrow> do_mstep rt w rhot other (pass_no > 0))"

text \<open>
  The loop over the chunks. It carries \<^verbatim>\<open>other\<close>, \<^verbatim>\<open>dirty\<close>, \<^verbatim>\<open>reallen\<close> and
  \<^verbatim>\<open>perwordbound\<close>, the last one \<open>None\<close> as long as \<^verbatim>\<open>perwordbound_updated\<close> is
  false.
\<close>

type_synonym chunk_vars = "LdaState \<times> bool \<times> int \<times> real option"

fun chunk_loop ::
  "'r runtime \<Rightarrow> locals \<Rightarrow> nat \<Rightarrow> document list list \<Rightarrow> int \<Rightarrow> chunk_vars \<Rightarrow> 'r world
     \<Rightarrow> error + (chunk_vars \<times> 'r world)" where
  "chunk_loop rt l pass_no [] chunk_no v w = Inr (v, w)"
| "chunk_loop rt l pass_no (chunk # rest) chunk_no (other, dirty, reallen, perwordbound) w =
     (let reallen = reallen + int (length chunk) in
      case (if eval_due l reallen chunk_no
            then (case log_perplexity rt w chunk (Some (lencorpus l)) of
                    Inl e \<Rightarrow> Inl e
                  | Inr (p, w) \<Rightarrow> Inr (Some p, w))
            else Inr (perwordbound, w)) of
        Inl e \<Rightarrow> Inl e
      | Inr (perwordbound, w) \<Rightarrow>
          (case do_estep rt w chunk (Some other) of
             Inl e \<Rightarrow> Inl e
           | Inr ((gammat, other), w) \<Rightarrow>
               (case (if optimize_alpha (model w)
                      then (case rho rt l pass_no w of
                              Inl e \<Rightarrow> Inl e
                            | Inr rhot \<Rightarrow>
                                (case update_alpha rt w gammat rhot of
                                   Inl e \<Rightarrow> Inl e
                                 | Inr (a, w) \<Rightarrow> Inr w))
                      else Inr w) of
                  Inl e \<Rightarrow> Inl e
                | Inr w \<Rightarrow>
                    (if mstep_due l chunk_no
                     then (case mstep_call rt l pass_no other w of
                             Inl e \<Rightarrow> Inl e
                           | Inr w \<Rightarrow>
                               chunk_loop rt l pass_no rest (chunk_no + 1)
                                 (LdaState_init (eta (model w)) (sstats (state (model w))),
                                  False, reallen, perwordbound) w)
                     else chunk_loop rt l pass_no rest (chunk_no + 1)
                            (other, True, reallen, perwordbound) w))))"

definition msg_corpus_changed :: string where
  "msg_corpus_changed =
     ''input corpus size changed during training (don't use generators as input)''"

text \<open>
  The body of \<^verbatim>\<open>for bound_iteration in xrange(max_bound_iterations)\<close> up to the test
  of \<^verbatim>\<open>perwordbound_updated\<close>; the result carries \<^verbatim>\<open>perwordbound\<close>.
\<close>

definition bound_iteration_body ::
  "'r runtime \<Rightarrow> locals \<Rightarrow> document list \<Rightarrow> nat \<Rightarrow> int \<Rightarrow> nat \<Rightarrow> 'r world
     \<Rightarrow> error + (real option \<times> 'r world)" where
  "bound_iteration_body rt l corpus pass_no num_updates_at_pass_start bound_iteration w =
     (let w = (if bound_iteration > 0
               then w\<lparr>model := (model w)\<lparr>num_updates := num_updates_at_pass_start\<rparr>\<rparr>
               else w);
          other = LdaState_init (eta (model w)) (sstats (state (model w)))
      in case chunk_loop rt l pass_no (grouper corpus (nat (chunksize l))) 0
                (other, False, 0, None) w of
           Inl e \<Rightarrow> Inl e
         | Inr ((other, dirty, reallen, perwordbound), w) \<Rightarrow>
             (if reallen \<noteq> lencorpus l then Inl (RuntimeError msg_corpus_changed)
              else case (if dirty then mstep_call rt l pass_no other w else Inr w) of
                Inl e \<Rightarrow> Inl e
              | Inr w \<Rightarrow> Inr (perwordbound, w)))"

text \<open>
  The loop over the bound iterations: \<open>n\<close> iterations are left, the next one has the
  index \<open>bound_iteration\<close>.
\<close>

fun bound_loop ::
  "'r runtime \<Rightarrow> locals \<Rightarrow> document list \<Rightarrow> nat \<Rightarrow> int \<Rightarrow> nat \<Rightarrow> nat \<Rightarrow> real \<Rightarrow> 'r world
     \<Rightarrow> error + 'r world" where
  "bound_loop rt l corpus pass_no base 0 bound_iteration last_perwordbound w = Inr w"
| "bound_loop rt l corpus pass_no base (Suc n) bound_iteration last_perwordbound w =
     (case bound_iteration_body rt l corpus pass_no base bound_iteration w of
        Inl e \<Rightarrow> Inl e
      | Inr (perwordbound, w) \<Rightarrow>
          (case perwordbound of
             None \<Rightarrow> bound_loop rt l corpus pass_no base n (Suc bound_iteration) last_perwordbound w
           | Some p \<Rightarrow>
               (case np_div (last_perwordbound - p) last_perwordbound of
                  Inl e \<Rightarrow> Inl e
                | Inr relative_improvement \<Rightarrow>
                    (if relative_improvement < bound_improvement_threshold l then Inr w
                     else bound_loop rt l corpus pass_no base n (Suc bound_iteration) p w))))"

text \<open>The loop over the passes: \<open>n\<close> passes are left, the next one is \<open>pass_no\<close>.\<close>

fun pass_loop ::
  "'r runtime \<Rightarrow> locals \<Rightarrow> document list \<Rightarrow> nat \<Rightarrow> nat \<Rightarrow> 'r world \<Rightarrow> error + 'r world" where
  "pass_loop rt l corpus 0 pass_no w = Inr w"
| "pass_loop rt l corpus (Suc n) pass_no w =
     (let num_updates_at_pass_start = num_updates (model w) in
      case bound_loop rt l corpus pass_no num_updates_at_pass_start
             (nat (max_bound_iterations l)) 0 (10 ^ 99) w of
        Inl e \<Rightarrow> Inl e
      | Inr w \<Rightarrow> pass_loop rt l corpus n (Suc pass_no) w)"

definition update_locals :: "LdaModel \<Rightarrow> document list \<Rightarrow> update_kwargs \<Rightarrow> locals" where
  "update_locals self corpus kw =
     \<lparr>lencorpus = int (length corpus),
      chunksize = (case kw_chunksize kw of
                     None \<Rightarrow> min (int (length corpus)) (LdaModel.chunksize self)
                   | Some c \<Rightarrow> c),
      decay = (case kw_decay kw of None \<Rightarrow> LdaModel.decay self | Some x \<Rightarrow> x),
      offset = (case kw_offset kw of None \<Rightarrow> LdaModel.offset self | Some x \<Rightarrow> x),
      passes = (case kw_passes kw of None \<Rightarrow> LdaModel.passes self | Some x \<Rightarrow> x),
      update_every = (case kw_update_every kw of
                        None \<Rightarrow> LdaModel.update_every self | Some x \<Rightarrow> x),
      eval_every = (case kw_eval_every kw of
                      None \<Rightarrow> LdaModel.eval_every self | Some x \<Rightarrow> Some x),
      max_bound_iterations = (case kw_max_bound_iterations kw of
                                None \<Rightarrow> LdaModel.max_bound_iterations self | Some x \<Rightarrow> x),
      bound_improvement_threshold = (case kw_bound_improvement_threshold kw of
                                None \<Rightarrow> LdaModel.bound_improvement_threshold self
                              | Some x \<Rightarrow> x)\<rparr>"

text \<open>\<^verbatim>\<open>update(corpus, ...)\<close>, for a corpus that has a length.\<close>

definition update ::
  "'r runtime \<Rightarrow> 'r world \<Rightarrow> document list \<Rightarrow> update_kwargs \<Rightarrow> error + 'r world" where
  "update rt w corpus kw =
     (let self = model w; l = update_locals self corpus kw in
      if lencorpus l = 0 then Inr w
      else
       (let w = w\<lparr>model := self\<lparr>state := (state self)
                   \<lparr>numdocs := numdocs (state self) + lencorpus l\<rparr>\<rparr>\<rparr>
        in case update_entry l of
             Inl e \<Rightarrow> Inl e
           | Inr _ \<Rightarrow> pass_loop rt l corpus (nat (passes l)) 0 w))"

section \<open>Reference formulas\<close>


text \<open>The quotient \<open>t / n\<close>, with \<open>1\<close> in its place when \<open>n = 0\<close>.\<close>

definition guarded_ratio :: "int \<Rightarrow> int \<Rightarrow> real" where
  "guarded_ratio t n = (if n = 0 then 1 else real_of_int t / real_of_int n)"

text \<open>
  The blend formula as the specification words it:
  \<open>(1 - \<rho>) * (t / s.numdocs) * s.sstats + \<rho> * (t / o.numdocs) * o.sstats\<close>, with scale
  \<open>1\<close> in place of \<open>t / s.numdocs\<close> when \<open>s.numdocs = 0\<close>. The quotient
  \<open>t / o.numdocs\<close> has no value when \<open>o.numdocs = 0\<close>.
\<close>

definition blend_formula :: "real \<Rightarrow> LdaState \<Rightarrow> LdaState \<Rightarrow> int \<Rightarrow> mat option" where
  "blend_formula rhot s ot t =
     (if numdocs ot = 0 then None
      else Some (mat_add
        (mat_scale ((1 - rhot) * (if numdocs s = 0 then 1
                                 else real_of_int t / real_of_int (numdocs s))) (sstats s))
        (mat_scale (rhot * (real_of_int t / real_of_int (numdocs ot))) (sstats ot))))"


text \<open>
  The condition under which, in the words of the specification, \<^verbatim>\<open>update\<close> rejects
  its options: \<open>maxBoundIterations < 1\<close>; \<open>maxBoundIterations > 1\<close> with
  \<open>updateEvery > 0\<close>; \<open>maxBoundIterations > 1\<close> with \<open>evalEvery\<close> not positive.
\<close>

definition claimed_reject :: "locals \<Rightarrow> bool" where
  "claimed_reject l =
     (max_bound_iterations l < 1
      \<or> (max_bound_iterations l > 1 \<and> update_every l > 0)
      \<or> (max_bound_iterations l > 1 \<and> \<not> eval_every_or_0 l > 0))"




definition mean_abs_change :: "vec \<Rightarrow> vec \<Rightarrow> real" where
  "mean_abs_change g lastgamma =
     (\<Sum>k < length g. \<bar>g ! k - lastgamma ! k\<bar>) / real (length g)"


text \<open>
  The sync obligation: \<^verbatim>\<open>self.expElogbeta\<close> is \<open>exp\<close> of the Dirichlet expectation of
  the current \<open>lambda = eta + sstats\<close> of \<^verbatim>\<open>self.state\<close>.
\<close>

definition synced :: "'r runtime \<Rightarrow> 'r world \<Rightarrow> bool" where
  "synced rt w =
     (case get_Elogbeta (psi rt) (heap w) (state (model w)) of
        Inl e \<Rightarrow> False
      | Inr Elogbeta \<Rightarrow> expElogbeta (model w) = map (map exp) Elogbeta)"

text \<open>
  The learning rate as the specification words it, with the quotient of the reals:
  \<open>(offset + p + numUpdates / chunksize)\<^sup>-\<^sup>d\<^sup>e\<^sup>c\<^sup>a\<^sup>y\<close>.
\<close>

definition rho_formula :: "real \<Rightarrow> nat \<Rightarrow> int \<Rightarrow> int \<Rightarrow> real \<Rightarrow> real" where
  "rho_formula off p u c dec = (off + real p + real_of_int u / real_of_int c) powr (- dec)"

text \<open>
  The quotient \<^verbatim>\<open>numUpdates / chunksize\<close> as the interpreter computes it for two
  integers.
\<close>

definition int_quotient :: "python \<Rightarrow> int \<Rightarrow> int \<Rightarrow> real" where
  "int_quotient v u c =
     (case v of Python2 \<Rightarrow> real_of_int (u div c) | Python3 \<Rightarrow> real_of_int u / real_of_int c)"

text \<open>\<^verbatim>\<open>rho()\<close> when \<^verbatim>\<open>self.num_updates\<close> is \<open>u\<close>.\<close>

definition rho_at :: "'r runtime \<Rightarrow> locals \<Rightarrow> nat \<Rightarrow> int \<Rightarrow> error + real" where
  "rho_at rt l p u =
     (case py_div_int (python rt) u (chunksize l) of
        Inl e \<Rightarrow> Inl e
      | Inr q \<Rightarrow> py_pow (offset l + real p + q) (- decay l))"

text \<open>
  The learning rates of the M-steps of one traversal of the corpus, from the sizes of
  its chunks alone. The triple is the number of documents gathered since the last
  M-step, \<^verbatim>\<open>dirty\<close>, and \<^verbatim>\<open>num_updates\<close>; \<open>ck\<close> is \<^verbatim>\<open>chunk_no\<close>.
\<close>

fun chunk_sched ::
  "'r runtime \<Rightarrow> locals \<Rightarrow> nat \<Rightarrow> nat list \<Rightarrow> int \<Rightarrow> int \<times> bool \<times> int
     \<Rightarrow> (error + real) list \<times> (int \<times> bool \<times> int)" where
  "chunk_sched rt l p [] ck v = ([], v)"
| "chunk_sched rt l p (n # ns) ck (pending, dirty, u) =
     (if mstep_due l ck
      then (case chunk_sched rt l p ns (ck + 1)
                   (0, False, if p > 0 then u else u + (pending + int n)) of
              (rs, v) \<Rightarrow> (rho_at rt l p u # rs, v))
      else chunk_sched rt l p ns (ck + 1) (pending + int n, True, u))"

definition body_sched :: "'r runtime \<Rightarrow> locals \<Rightarrow> nat \<Rightarrow> nat list \<Rightarrow> int \<Rightarrow> (error + real) list" where
  "body_sched rt l p ns u =
     (case chunk_sched rt l p ns 0 (0, False, u) of
        (rs, (pending, dirty, u')) \<Rightarrow> rs @ (if dirty then [rho_at rt l p u'] else []))"

section \<open>Concrete instances\<close>

text \<open>
  An environment for the closed examples: the random generator counts its draws and
  always returns \<open>1\<close>; \<open>- 1 / x\<close> and its derivative \<open>1 / x\<^sup>2\<close> stand in for
  \<^verbatim>\<open>psi\<close> and \<^verbatim>\<open>polygamma(1, .)\<close> (they are increasing and positive for positive
  \<open>x\<close>, as the digamma and trigamma functions are).
\<close>

definition rt0 :: "nat runtime" where
  "rt0 = \<lparr>python = Python2, psi = (\<lambda>x. - 1 / x), polygamma1 = (\<lambda>x. 1 / (x * x)),
          gammaln = (\<lambda>x. 0), gamma_sample = (\<lambda>r. (1, Suc r)),
          rand_sample = (\<lambda>r. (1 / 2, Suc r))\<rparr>"

text \<open>A model with two topics over two terms, and a program state that holds it.\<close>

definition m0 :: LdaModel where
  "m0 = \<lparr>num_topics = 2, num_terms = 2, LdaModel.chunksize = 2, LdaModel.decay = 1 / 2,
          LdaModel.offset = 1, num_updates = 0, LdaModel.passes = 1,
          LdaModel.update_every = 1, LdaModel.eval_every = Some 10,
          LdaModel.max_bound_iterations = 1,
          LdaModel.bound_improvement_threshold = 1 / 1000,
          optimize_alpha = False, alpha = [1 / 2, 1 / 2], optimize_eta = False, eta = 0,
          iterations = 50, gamma_threshold = 1 / 1000,
          state = \<lparr>LdaState.eta = 0, sstats = [[1, 1], [1, 1]], numdocs = 0\<rparr>,
          expElogbeta = [[1, 1], [1, 1]]\<rparr>"

definition w0 :: "nat world" where
  "w0 = \<lparr>model = m0, heap = (\<lambda>_. Column [1 / 2, 1 / 2]), rng = 0, rho_log = []\<rparr>"

text \<open>A call of \<^verbatim>\<open>update\<close> with no keyword argument.\<close>

definition kw0 :: update_kwargs where
  "kw0 = \<lparr>kw_chunksize = None, kw_decay = None, kw_offset = None, kw_passes = None,
           kw_update_every = None, kw_eval_every = None, kw_iterations = None,
           kw_gamma_threshold = None, kw_max_bound_iterations = None,
           kw_bound_improvement_threshold = None\<rparr>"

text \<open>
  The same model built with \<^verbatim>\<open>eta='auto'\<close>, after \<^verbatim>\<open>update\<close> has counted a corpus
  of 5 documents, and the statistics of an E-step over these documents.
\<close>

definition w_auto :: "nat world" where
  "w_auto = w0\<lparr>model := m0\<lparr>optimize_eta := True,
                        state := \<lparr>LdaState.eta = 0, sstats = [[1, 1], [1, 1]], numdocs = 5\<rparr>\<rparr>\<rparr>"

definition other_estep :: LdaState where
  "other_estep = \<lparr>LdaState.eta = 0, sstats = [[10, 10], [10, 10]], numdocs = 5\<rparr>"

text \<open>The program state that \<^verbatim>\<open>do_mstep(0.5, other_estep)\<close> leaves from \<open>w_auto\<close>.\<close>

definition w_auto' :: "nat world" where
  "w_auto' = \<lparr>model = m0\<lparr>optimize_eta := True,
                      state := \<lparr>LdaState.eta = 0, sstats = [[11 / 2, 11 / 2], [11 / 2, 11 / 2]],
                                 numdocs = 5\<rparr>,
                      expElogbeta := [[exp (- (1 / 12)), exp (- (1 / 12))],
                                      [exp (- (1 / 12)), exp (- (1 / 12))]],
                      num_updates := 5\<rparr>,
          heap = (\<lambda>_. Column [1 / 2, 1 / 2])(0 := Column [35 / 48, 35 / 48]),
          rng = 0, rho_log = [1 / 2]\<rparr>"

text \<open>
  A batch run over a corpus of one document: the model with \<^verbatim>\<open>update_every=0\<close>, no
  evaluation of the bound and \<^verbatim>\<open>iterations=0\<close>, and the local variables of
  \<^verbatim>\<open>update\<close> for it.
\<close>

definition m_batch :: LdaModel where
  "m_batch = m0\<lparr>LdaModel.update_every := 0, LdaModel.eval_every := None, iterations := 0\<rparr>"

definition w_batch :: "nat world" where
  "w_batch = w0\<lparr>model := m_batch\<rparr>"

definition corpus_batch :: "document list" where
  "corpus_batch = [[(0, 3)]]"

definition l_batch :: locals where
  "l_batch = update_locals m_batch corpus_batch kw0"

text \<open>
  The local variables of a run with chunks of 2 documents, and a program state in which
  3 documents have been counted.
\<close>

definition l_online :: locals where
  "l_online = \<lparr>lencorpus = 3, chunksize = 2, decay = 1, offset = 1, passes = 2, update_every = 1,
          eval_every = None, max_bound_iterations = 1,
          bound_improvement_threshold = 1 / 1000\<rparr>"

definition w_online :: "nat world" where
  "w_online = w0\<lparr>model := m0\<lparr>num_updates := 3\<rparr>\<rparr>"

section \<open>Properties of the array operations\<close>





lemma mat_add_shape: "same_shape a b \<Longrightarrow> map length (mat_add a b) = map length a"
  unfolding same_shape_def mat_add_def
proof (induction a arbitrary: b)
  case Nil then show ?case by simp
next
  case (Cons r a)
  then show ?case by (cases b) auto
qed




lemma mat_add_nth:
  assumes s: "same_shape a b" and i: "i < length a" and j: "j < length (a ! i)"
  shows "mat_add a b ! i ! j = a ! i ! j + b ! i ! j"
proof -
  from s have l: "length a = length b" unfolding same_shape_def by (metis length_map)
  from s i l have li: "length (a ! i) = length (b ! i)"
    unfolding same_shape_def by (metis nth_map)
  show ?thesis using i j l li by (simp add: mat_add_def)
qed

lemma mat_scale_shape: "map length (mat_scale c a) = map length a"
  by (simp add: mat_scale_def comp_def)

lemma mat_scale_nth:
  "i < length a \<Longrightarrow> j < length (a ! i) \<Longrightarrow> mat_scale c a ! i ! j = c * (a ! i ! j)"
  by (simp add: mat_scale_def)

section \<open>LdaState: merge and blend\<close>


lemma blend_scale_eq: "blend_scale t n = Inr (guarded_ratio t n)"
  by (auto simp: blend_scale_def guarded_ratio_def py_truediv_def)

lemma blend_Some:
  "blend s rhot (Some ot) tgt =
    (let t = (case tgt of None \<Rightarrow> numdocs s | Some t \<Rightarrow> t) in
     if same_shape (sstats s) (sstats ot)
     then Inr (s\<lparr>sstats :=
                   mat_add (mat_scale ((1 - rhot) * guarded_ratio t (numdocs s)) (sstats s))
                           (mat_scale (rhot * guarded_ratio t (numdocs ot)) (sstats ot)),
               numdocs := t\<rparr>)
     else Inl ShapeMismatch)"
  by (simp add: blend_def blend_scale_eq mat_iadd_def Let_def same_shape_def mat_scale_shape)



text \<open>
  C1, as the code has it. For states of one shape, \<open>blend\<close> sets \<open>numdocs\<close> to the target
  size \<open>t\<close> (the old \<open>numdocs\<close> when none is given) and every entry of \<open>sstats\<close> to
  \<open>(1 - \<rho>) * (t / s.numdocs) * s.sstats + \<rho> * (t / o.numdocs) * o.sstats\<close>, where scale
  \<open>1\<close> stands in place of \<open>t / s.numdocs\<close> when \<open>s.numdocs = 0\<close> and in place of
  \<open>t / o.numdocs\<close> when \<open>o.numdocs = 0\<close>.
\<close>

theorem blend_guarded_formula:
  assumes "same_shape (sstats s) (sstats ot)"
  shows "\<exists>s'. blend s rhot (Some ot) tgt = Inr s' \<and>
           numdocs s' = (case tgt of None \<Rightarrow> numdocs s | Some t \<Rightarrow> t) \<and>
           LdaState.eta s' = LdaState.eta s \<and>
           map length (sstats s') = map length (sstats s) \<and>
           (\<forall>i < length (sstats s). \<forall>j < length (sstats s ! i).
              sstats s' ! i ! j =
                (1 - rhot) * guarded_ratio (numdocs s') (numdocs s) * (sstats s ! i ! j)
                + rhot * guarded_ratio (numdocs s') (numdocs ot) * (sstats ot ! i ! j))"
proof -
  let ?t = "case tgt of None \<Rightarrow> numdocs s | Some t \<Rightarrow> t"
  let ?a = "mat_scale ((1 - rhot) * guarded_ratio ?t (numdocs s)) (sstats s)"
  let ?b = "mat_scale (rhot * guarded_ratio ?t (numdocs ot)) (sstats ot)"
  have ab: "same_shape ?a ?b" using assms by (simp add: same_shape_def mat_scale_shape)
  have len: "length (sstats s) = length (sstats ot)"
    using assms unfolding same_shape_def by (metis length_map)
  have leni: "\<And>i. i < length (sstats s) \<Longrightarrow> length (sstats s ! i) = length (sstats ot ! i)"
    using assms len unfolding same_shape_def by (metis nth_map)
  have la: "length ?a = length (sstats s)" by (simp add: mat_scale_def)
  have lai: "\<And>i. i < length (sstats s) \<Longrightarrow> length (?a ! i) = length (sstats s ! i)"
    by (simp add: mat_scale_def)
  have entry: "\<And>i j. i < length (sstats s) \<Longrightarrow> j < length (sstats s ! i) \<Longrightarrow>
      mat_add ?a ?b ! i ! j =
        (1 - rhot) * guarded_ratio ?t (numdocs s) * (sstats s ! i ! j)
        + rhot * guarded_ratio ?t (numdocs ot) * (sstats ot ! i ! j)"
    using mat_add_nth [OF ab] la lai len leni by (simp add: mat_scale_nth)
  show ?thesis
    using assms entry mat_add_shape [OF ab]
    by (simp add: blend_Some Let_def mat_scale_shape)
qed

text \<open>
  The witness is scenario S2 with \<open>K = 2\<close> and \<open>W = 3\<close>: blending \<open>10 * ones\<close> over
  5 documents into the zero state with \<open>\<rho> = 1/2\<close> and target size 10 gives \<open>10 * ones\<close>
  and \<open>numdocs = 10\<close>.
\<close>

theorem blend_guarded_formula_witness:
  "same_shape [[0, 0, 0], [0, 0, 0]] [[10, 10, 10], [10, 10, 10]] \<and>
   (\<exists>s'. blend \<lparr>LdaState.eta = 0, sstats = [[0, 0, 0], [0, 0, 0]], numdocs = 0\<rparr> (1/2)
            (Some \<lparr>LdaState.eta = 0, sstats = [[10, 10, 10], [10, 10, 10]], numdocs = 5\<rparr>)
            (Some 10) = Inr s' \<and>
         numdocs s' = 10 \<and>
         (\<forall>i < 2. \<forall>j < 3. sstats s' ! i ! j = 10))"
proof -
  have h: "same_shape [[0, 0, 0], [0, 0, 0]] [[10, 10, 10], [10, 10, 10]]"
    by (simp add: same_shape_def)
  have r: "guarded_ratio 10 5 = 2" by (simp add: guarded_ratio_def)
  have n: "\<And>i j. i < 2 \<Longrightarrow> j < 3 \<Longrightarrow>
      [[10, 10, 10], [10, 10, 10::real]] ! i ! j = 10 \<and> [[0, 0, 0], [0, 0, 0::real]] ! i ! j = 0"
    by (auto simp: less_Suc_eq numeral_2_eq_2 numeral_3_eq_3)
  from blend_guarded_formula
      [of "\<lparr>LdaState.eta = 0, sstats = [[0, 0, 0], [0, 0, 0]], numdocs = 0\<rparr>"
          "\<lparr>LdaState.eta = 0, sstats = [[10, 10, 10], [10, 10, 10]], numdocs = 5\<rparr>"
          "1/2" "Some 10"] h
  obtain s' where s':
    "blend \<lparr>LdaState.eta = 0, sstats = [[0, 0, 0], [0, 0, 0]], numdocs = 0\<rparr> (1/2)
       (Some \<lparr>LdaState.eta = 0, sstats = [[10, 10, 10], [10, 10, 10]], numdocs = 5\<rparr>)
       (Some 10) = Inr s'"
    "numdocs s' = 10"
    "\<forall>i < 2. \<forall>j < length ([[0, 0, 0], [0, 0, 0::real]] ! i).
        sstats s' ! i ! j =
          (1 - 1/2) * guarded_ratio (numdocs s') 0 * ([[0, 0, 0], [0, 0, 0]] ! i ! j)
          + 1/2 * guarded_ratio (numdocs s') 5 * ([[10, 10, 10], [10, 10, 10]] ! i ! j)"
    by auto
  have "\<forall>i < 2. \<forall>j < 3. sstats s' ! i ! j = 10"
  proof (intro allI impI)
    fix i j :: nat assume i: "i < 2" and j: "j < 3"
    from i have li: "length ([[0, 0, 0], [0, 0, 0::real]] ! i) = 3"
      by (auto simp: less_Suc_eq numeral_2_eq_2)
    from s'(3) i j li have
      "sstats s' ! i ! j =
          (1 - 1/2) * guarded_ratio (numdocs s') 0 * ([[0, 0, 0], [0, 0, 0]] ! i ! j)
          + 1/2 * guarded_ratio (numdocs s') 5 * ([[10, 10, 10], [10, 10, 10]] ! i ! j)"
      by simp
    then show "sstats s' ! i ! j = 10" using n [OF i j] s'(2) r by simp
  qed
  with h s'(1,2) show ?thesis by blast
qed

text \<open>
  C1 as stated fails where \<open>o.numdocs = 0\<close>: the code scales \<open>o.sstats\<close> by \<open>\<rho> * 1\<close>,
  the stated formula divides by \<open>o.numdocs\<close> and has no value there.
\<close>

theorem blend_formula_counterexample:
  "blend \<lparr>LdaState.eta = 0, sstats = [[0]], numdocs = 0\<rparr> (1/2)
     (Some \<lparr>LdaState.eta = 0, sstats = [[1]], numdocs = 0\<rparr>) (Some 10)
     = Inr \<lparr>LdaState.eta = 0, sstats = [[1/2]], numdocs = 10\<rparr>
   \<and> blend_formula (1/2) \<lparr>LdaState.eta = 0, sstats = [[0]], numdocs = 0\<rparr>
        \<lparr>LdaState.eta = 0, sstats = [[1]], numdocs = 0\<rparr> 10 = None"
  by (simp add: blend_Some same_shape_def mat_add_def mat_scale_def guarded_ratio_def
        blend_formula_def)

text \<open>
  C10. Neither scale computation of \<open>blend\<close> divides by zero: where the document count is
  \<open>0\<close>, or equals the target size, the scale is \<open>1\<close> and nothing is divided; so \<open>blend\<close>
  never raises \<open>ZeroDivisionError\<close>, for \<open>self\<close> and for \<open>other\<close> alike.
\<close>

theorem blend_never_divides_by_zero:
  "blend_scale t n \<noteq> Inl ZeroDivisionError
   \<and> (n = 0 \<or> t = n \<longrightarrow> blend_scale t n = Inr 1)
   \<and> blend s rhot ot tgt \<noteq> Inl ZeroDivisionError"
proof (intro conjI)
  show "blend_scale t n \<noteq> Inl ZeroDivisionError" by (simp add: blend_scale_eq)
  show "n = 0 \<or> t = n \<longrightarrow> blend_scale t n = Inr 1" by (simp add: blend_scale_def)
  show "blend s rhot ot tgt \<noteq> Inl ZeroDivisionError"
  proof (cases ot)
    case None then show ?thesis by (simp add: blend_def)
  next
    case (Some b) then show ?thesis by (simp add: blend_Some Let_def)
  qed
qed

theorem blend_never_divides_by_zero_witness:
  "blend_scale 10 0 = Inr 1 \<and> blend_scale 7 7 = Inr 1
   \<and> blend \<lparr>LdaState.eta = 0, sstats = [[3]], numdocs = 0\<rparr> (1/2)
        (Some \<lparr>LdaState.eta = 0, sstats = [[1]], numdocs = 0\<rparr>) None
       \<noteq> Inl ZeroDivisionError"
  using blend_never_divides_by_zero [of 10 0 "\<lparr>LdaState.eta = 0, sstats = [[3]], numdocs = 0\<rparr>"
          "1/2" "Some \<lparr>LdaState.eta = 0, sstats = [[1]], numdocs = 0\<rparr>" None]
        blend_never_divides_by_zero [of 7 7 "\<lparr>LdaState.eta = 0, sstats = [[3]], numdocs = 0\<rparr>"
          "1/2" "Some \<lparr>LdaState.eta = 0, sstats = [[1]], numdocs = 0\<rparr>" None]
  by simp

section \<open>update: the checks of the options\<close>

lemma update_entry_ValueError:
  "(\<exists>m. update_entry l = Inl (ValueError m)) \<longleftrightarrow>
     (max_bound_iterations l < 1
      \<or> (max_bound_iterations l > 1 \<and> update_every l \<noteq> 0)
      \<or> (max_bound_iterations l > 1 \<and> \<not> eval_every_or_0 l > 0))"
  by (auto simp: update_entry_def Let_def)

text \<open>
  C8, as the code has it. With an empty corpus \<^verbatim>\<open>update\<close> returns at once, whatever
  the options. With a corpus that is not empty, the checks at the entry of \<^verbatim>\<open>update\<close>
  raise \<^verbatim>\<open>ValueError\<close> exactly when \<open>max_bound_iterations < 1\<close>, or
  \<open>max_bound_iterations > 1\<close> with \<open>update_every\<close> other than \<open>0\<close>, or
  \<open>max_bound_iterations > 1\<close> with \<open>eval_every\<close> not set to a positive value; an
  error of these checks is the result of \<^verbatim>\<open>update\<close>, and only when they pass does
  the loop over the passes, with its E-steps and M-steps, begin.
\<close>

theorem update_rejects_options:
  "(corpus = [] \<longrightarrow> update rt w corpus kw = Inr w) \<and>
   (corpus \<noteq> [] \<longrightarrow>
      (let l = update_locals (model w) corpus kw in
       ((\<exists>m. update_entry l = Inl (ValueError m)) \<longleftrightarrow>
          (max_bound_iterations l < 1
           \<or> (max_bound_iterations l > 1 \<and> update_every l \<noteq> 0)
           \<or> (max_bound_iterations l > 1 \<and> \<not> eval_every_or_0 l > 0)))
       \<and> (\<forall>e. update_entry l = Inl e \<longrightarrow> update rt w corpus kw = Inl e)
       \<and> (update_entry l = Inr () \<longrightarrow>
            update rt w corpus kw =
              pass_loop rt l corpus (nat (passes l)) 0
                (w\<lparr>model := (model w)\<lparr>state := (state (model w))
                     \<lparr>numdocs := numdocs (state (model w)) + lencorpus l\<rparr>\<rparr>\<rparr>))))"
proof (intro conjI impI)
  assume "corpus = []"
  then show "update rt w corpus kw = Inr w"
    by (simp add: update_def update_locals_def Let_def)
next
  assume ne: "corpus \<noteq> []"
  have len: "lencorpus (update_locals (model w) corpus kw) \<noteq> 0"
    using ne by (simp add: update_locals_def)
  show "let l = update_locals (model w) corpus kw in
       ((\<exists>m. update_entry l = Inl (ValueError m)) \<longleftrightarrow>
          (max_bound_iterations l < 1
           \<or> (max_bound_iterations l > 1 \<and> update_every l \<noteq> 0)
           \<or> (max_bound_iterations l > 1 \<and> \<not> eval_every_or_0 l > 0)))
       \<and> (\<forall>e. update_entry l = Inl e \<longrightarrow> update rt w corpus kw = Inl e)
       \<and> (update_entry l = Inr () \<longrightarrow>
            update rt w corpus kw =
              pass_loop rt l corpus (nat (passes l)) 0
                (w\<lparr>model := (model w)\<lparr>state := (state (model w))
                     \<lparr>numdocs := numdocs (state (model w)) + lencorpus l\<rparr>\<rparr>\<rparr>))"
    unfolding Let_def
  proof (intro conjI allI impI)
    show "(\<exists>m. update_entry (update_locals (model w) corpus kw) = Inl (ValueError m)) \<longleftrightarrow>
          (max_bound_iterations (update_locals (model w) corpus kw) < 1
           \<or> (max_bound_iterations (update_locals (model w) corpus kw) > 1
               \<and> update_every (update_locals (model w) corpus kw) \<noteq> 0)
           \<or> (max_bound_iterations (update_locals (model w) corpus kw) > 1
               \<and> \<not> eval_every_or_0 (update_locals (model w) corpus kw) > 0))"
      by (rule update_entry_ValueError)
  next
    fix e assume "update_entry (update_locals (model w) corpus kw) = Inl e"
    then show "update rt w corpus kw = Inl e"
      using len by (simp add: update_def Let_def)
  next
    assume "update_entry (update_locals (model w) corpus kw) = Inr ()"
    then show "update rt w corpus kw =
              pass_loop rt (update_locals (model w) corpus kw) corpus
                (nat (passes (update_locals (model w) corpus kw))) 0
                (w\<lparr>model := (model w)\<lparr>state := (state (model w))
                     \<lparr>numdocs := numdocs (state (model w))
                        + lencorpus (update_locals (model w) corpus kw)\<rparr>\<rparr>\<rparr>)"
      using len by (simp add: update_def Let_def)
  qed
qed

lemma locals0:
  "update_locals m0 corpus (kw0\<lparr>kw_max_bound_iterations := Some b\<rparr>) =
     \<lparr>lencorpus = int (length corpus), chunksize = min (int (length corpus)) 2, decay = 1 / 2,
      offset = 1, passes = 1, update_every = 1, eval_every = Some 10,
      max_bound_iterations = b, bound_improvement_threshold = 1 / 1000\<rparr>"
  by (simp add: update_locals_def m0_def kw0_def)

theorem update_rejects_options_witness:
  "[[(0, 1)]] \<noteq> ([] :: document list) \<and>
   update rt0 w0 [[(0, 1)]] (kw0\<lparr>kw_max_bound_iterations := Some 0\<rparr>)
     = Inl (ValueError msg_at_least_1)"
proof -
  have e: "update_entry (update_locals (model w0) [[(0, 1)]]
              (kw0\<lparr>kw_max_bound_iterations := Some 0\<rparr>)) = Inl (ValueError msg_at_least_1)"
    by (simp add: w0_def locals0 update_entry_def)
  show ?thesis
    using update_rejects_options
      [of "[[(0, 1)]]" rt0 w0 "kw0\<lparr>kw_max_bound_iterations := Some 0\<rparr>"] e
    by (simp add: Let_def)
qed

text \<open>
  C8 as stated fails twice: with an empty corpus and \<open>max_bound_iterations = 0\<close>
  nothing is raised, and with \<open>update_every = -1\<close>, \<open>eval_every = 1\<close> and
  \<open>max_bound_iterations = 2\<close> the online-mode error is raised.
\<close>

theorem update_claimed_reject_counterexample:
  "(claimed_reject (update_locals (model w0) [] (kw0\<lparr>kw_max_bound_iterations := Some 0\<rparr>))
      \<and> update rt0 w0 [] (kw0\<lparr>kw_max_bound_iterations := Some 0\<rparr>) = Inr w0)
   \<and> (\<not> claimed_reject (update_locals (model w0) [[(0, 1)]]
           (kw0\<lparr>kw_update_every := Some (- 1), kw_eval_every := Some 1,
                 kw_max_bound_iterations := Some 2\<rparr>))
      \<and> update rt0 w0 [[(0, 1)]]
           (kw0\<lparr>kw_update_every := Some (- 1), kw_eval_every := Some 1,
                 kw_max_bound_iterations := Some 2\<rparr>) = Inl (ValueError msg_online))"
  by (simp add: claimed_reject_def update_def update_locals_def update_entry_def
        eval_every_or_0_def w0_def m0_def kw0_def Let_def)

section \<open>update_alpha\<close>

lemma vec_div_length: "vec_div xs ys = Inr zs \<Longrightarrow> length zs = min (length xs) (length ys)"
  by (auto simp: vec_div_def split: if_splits)

lemma newton_step_length:
  assumes "newton_step ps pg prior logphat N = Inr d"
  shows "length d = length prior"
proof -
  from assms have len: "length prior = length logphat"
    by (auto simp: newton_step_def split: if_splits)
  from assms len obtain b where
    "vec_div (map (\<lambda>g. - (g - b))
        (map2 (\<lambda>a l. N * (ps (sum_list prior) - ps a + l)) prior logphat))
        (map (\<lambda>a. - N * pg a) prior) = Inr d"
    by (auto simp: newton_step_def Let_def split: if_splits sum.splits)
  from vec_div_length [OF this] len show ?thesis by simp
qed

lemma map2_flip: "map2 f xs ys = map2 (\<lambda>y x. f x y) ys xs"
proof (induction xs arbitrary: ys)
  case Nil show ?case by simp
next
  case (Cons x xs) show ?case by (cases ys) (simp_all add: Cons.IH)
qed

lemma step_positive_iff:
  "step_positive rhot d prior = list_all (\<lambda>x. 0 < x) (map2 (\<lambda>a d. a + rhot * d) prior d)"
  unfolding step_positive_def
  by (subst map2_flip) (simp add: add.commute)

lemma positive_differs:
  assumes "list_all (\<lambda>x. 0 < x) (xs :: real list)" and "\<not> list_all (\<lambda>x. 0 < x) ys"
  shows "xs \<noteq> ys"
  using assms by auto

text \<open>
  C5. Whenever the Newton step \<open>dalpha\<close> of \<^verbatim>\<open>update_alpha\<close> is computed,
  \<^verbatim>\<open>update_alpha\<close> returns \<^verbatim>\<open>self.alpha\<close> and changes nothing else; the new
  \<open>alpha\<close> is \<open>alpha + rho * dalpha\<close> when that vector is positive in every entry, and
  the old \<open>alpha\<close> otherwise. So a positive \<open>alpha\<close> stays positive, and then the new
  \<open>alpha\<close> is \<open>alpha + rho * dalpha\<close> if and only if \<open>alpha + rho * dalpha\<close> is
  positive in every entry. (The warning is a log line.)
\<close>

theorem update_alpha_accepts_iff_positive:
  assumes "alpha_step rt (model w) gammat = Inr dalpha"
  shows "\<exists>a. update_alpha rt w gammat rhot = Inr (a, w\<lparr>model := (model w)\<lparr>alpha := a\<rparr>\<rparr>) \<and>
           length dalpha = length (alpha (model w)) \<and>
           (let proposed = map2 (\<lambda>a d. a + rhot * d) (alpha (model w)) dalpha in
              (list_all (\<lambda>x. 0 < x) proposed \<longrightarrow> a = proposed) \<and>
              (\<not> list_all (\<lambda>x. 0 < x) proposed \<longrightarrow> a = alpha (model w)) \<and>
              (list_all (\<lambda>x. 0 < x) (alpha (model w)) \<longrightarrow>
                 list_all (\<lambda>x. 0 < x) a \<and>
                 (a = proposed \<longleftrightarrow> list_all (\<lambda>x. 0 < x) proposed)))"
proof -
  from assms have len: "length dalpha = length (alpha (model w))"
    by (auto simp: alpha_step_def Let_def split: sum.splits dest: newton_step_length)
  let ?p = "map2 (\<lambda>a d. a + rhot * d) (alpha (model w)) dalpha"
  show ?thesis
  proof (cases "list_all (\<lambda>x. 0 < x) ?p")
    case True
    with assms have
      "update_alpha rt w gammat rhot = Inr (?p, w\<lparr>model := (model w)\<lparr>alpha := ?p\<rparr>\<rparr>)"
      by (simp add: update_alpha_def Let_def step_positive_iff)
    with True len show ?thesis unfolding Let_def by blast
  next
    case False
    have same: "w\<lparr>model := (model w)\<lparr>alpha := alpha (model w)\<rparr>\<rparr> = w" by simp
    from False assms have u:
      "update_alpha rt w gammat rhot
         = Inr (alpha (model w), w\<lparr>model := (model w)\<lparr>alpha := alpha (model w)\<rparr>\<rparr>)"
      by (simp add: update_alpha_def Let_def step_positive_iff)
    have last: "list_all (\<lambda>x. 0 < x) (alpha (model w)) \<longrightarrow>
                 list_all (\<lambda>x. 0 < x) (alpha (model w)) \<and>
                 (alpha (model w) = ?p \<longleftrightarrow> list_all (\<lambda>x. 0 < x) ?p)"
      using positive_differs [OF _ False] False by blast
    from u len last False show ?thesis unfolding Let_def by blast
  qed
qed

lemma alpha_step0: "alpha_step rt0 m0 [[1, 2], [2, 1]] = Inr [7 / 24, 7 / 24]"
  by (simp add: alpha_step_def rt0_def m0_def mean_rows_def dirichlet_expectation_def
        newton_step_def vec_div_def np_div_def Let_def)

theorem update_alpha_accepts_iff_positive_witness:
  "alpha_step rt0 (model w0) [[1, 2], [2, 1]] = Inr [7 / 24, 7 / 24]
   \<and> update_alpha rt0 w0 [[1, 2], [2, 1]] 1
       = Inr ([19 / 24, 19 / 24], w0\<lparr>model := (model w0)\<lparr>alpha := [19 / 24, 19 / 24]\<rparr>\<rparr>)
   \<and> update_alpha rt0 w0 [[1, 2], [2, 1]] (- 20)
       = Inr ([1 / 2, 1 / 2], w0\<lparr>model := (model w0)\<lparr>alpha := [1 / 2, 1 / 2]\<rparr>\<rparr>)"
proof -
  have m: "model w0 = m0" "alpha m0 = [1 / 2, 1 / 2]" by (simp_all add: w0_def m0_def)
  have s: "alpha_step rt0 (model w0) [[1, 2], [2, 1]] = Inr [7 / 24, 7 / 24]"
    using alpha_step0 m by simp
  from update_alpha_accepts_iff_positive [OF s, of 1]
       update_alpha_accepts_iff_positive [OF s, of "- 20"] s
  show ?thesis by (auto simp: m Let_def)
qed

section \<open>inference\<close>

lemma dot_nonneg:
  "(\<forall>x\<in>set xs. 0 \<le> x) \<Longrightarrow> (\<forall>y\<in>set ys. 0 \<le> y) \<Longrightarrow> 0 \<le> dot xs ys"
  unfolding dot_def
proof (induction xs arbitrary: ys)
  case Nil show ?case by simp
next
  case (Cons x xs)
  show ?case
  proof (cases ys)
    case Nil then show ?thesis by simp
  next
    case (Cons y ys')
    with Cons.prems Cons.IH [of ys'] show ?thesis by simp
  qed
qed

lemma phinorm_of_nonzero:
  assumes "\<forall>x\<in>set eth. 0 \<le> x" and "\<forall>col\<in>set bT. \<forall>y\<in>set col. 0 \<le> y"
  shows "0 \<notin> set (phinorm_of eth bT)"
proof
  assume "0 \<in> set (phinorm_of eth bT)"
  then obtain col where c: "col \<in> set bT" and z: "dot eth col + 1 / 10 ^ 100 = 0"
    by (auto simp: phinorm_of_def)
  from dot_nonneg [OF assms(1)] assms(2) c have "0 \<le> dot eth col" by blast
  moreover have "(0::real) < 1 / 10 ^ 100" by simp
  ultimately show False using z by linarith
qed


lemma vec_div_ok: "0 \<notin> set ys \<Longrightarrow> vec_div xs ys = Inr (map2 (/) xs ys)"
  by (simp add: vec_div_def)






lemma sum_list_nth_sum: "sum_list (xs :: real list) = (\<Sum>k < length xs. xs ! k)"
  by (simp add: sum_list_sum_nth atLeast0LessThan)











lemma well_shaped_m0: "well_shaped m0"
  by (simp add: well_shaped_def m0_def numeral_2_eq_2)


lemma map2_times_zeros:
  "length (xs :: real list) = k \<Longrightarrow> map2 (*) xs (replicate k 0) = replicate k 0"
  by (induction xs arbitrary: k) auto

lemma map2_plus_zeros:
  "length (xs :: real list) = k \<Longrightarrow> map2 (+) xs (replicate k 0) = xs"
  by (induction xs arbitrary: k) auto

lemma gamma_body_empty:
  assumes a: "length a = k" and k: "0 < k" and g: "length g = k" and e: "length eth = k"
  shows "gamma_body ps a [] [] (g, eth, [])
           = Inr ((a, map exp (dirichlet_expectation ps a), []), mean_abs_change a g)"
proof -
  have u: "map2 (+) a (map2 (*) eth (vec_mat_dot (length a) [] [])) = a"
    using a e by (simp add: vec_mat_dot_def map2_times_zeros map2_plus_zeros)
  have ne: "map abs (map2 (-) a g) \<noteq> []" using a g k by auto
  have mc: "sum_list (map abs (map2 (-) a g)) / real (length (map abs (map2 (-) a g)))
              = mean_abs_change a g"
    using a g by (simp add: mean_abs_change_def sum_list_nth_sum)
  show ?thesis
    using ne mc by (simp add: gamma_body_def vec_div_def u np_mean_def phinorm_of_def Let_def)
qed

lemma mean_abs_change_same: "mean_abs_change a a = 0"
  by (simp add: mean_abs_change_def)

lemma gamma_loop_empty:
  assumes a: "length a = k" and k: "0 < k"
  shows "length g = k \<Longrightarrow> length eth = k \<Longrightarrow>
    \<exists>conv. gamma_loop ps a [] [] thr (Suc n) (g, eth, [])
             = Inr ((a, map exp (dirichlet_expectation ps a), []), conv)"
proof (induction n arbitrary: g eth)
  case 0
  from gamma_body_empty [OF a k 0(1) 0(2), of ps] show ?case by auto
next
  case (Suc n)
  have le: "length (map exp (dirichlet_expectation ps a)) = k"
    using a by (simp add: dirichlet_expectation_def)
  from Suc.IH [OF a le] obtain conv where
    "gamma_loop ps a [] [] thr (Suc n) (a, map exp (dirichlet_expectation ps a), [])
       = Inr ((a, map exp (dirichlet_expectation ps a), []), conv)" by blast
  note ih = this
  note body = gamma_body_empty [OF a k Suc.prems, of ps]
  show ?case
  proof (cases "mean_abs_change a g < thr")
    case True
    with body have "gamma_loop ps a [] [] thr (Suc (Suc n)) (g, eth, [])
        = Inr ((a, map exp (dirichlet_expectation ps a), []), True)"
      by (subst gamma_loop.simps(2)) simp
    then show ?thesis by blast
  next
    case False
    with body have "gamma_loop ps a [] [] thr (Suc (Suc n)) (g, eth, [])
        = gamma_loop ps a [] [] thr (Suc n) (a, map exp (dirichlet_expectation ps a), [])"
      by (subst gamma_loop.simps(2)) simp
    with ih show ?thesis by simp
  qed
qed

text \<open>
  C7. For an empty document of a well-shaped model with at least one topic and
  \<open>iterations \<ge> 1\<close>, the per-document loop returns \<open>gammad = alpha\<close> and no division by
  zero occurs (every division of the model is checked, and the result is not an error):
  the first run of the body sets \<open>gammad\<close> to \<open>alpha\<close>, and a further run leaves it
  there with \<open>meanchange = 0\<close>.
\<close>

theorem infer_doc_empty_document:
  assumes ws: "well_shaped self" and k: "0 < num_topics self"
    and lg: "length gammad = num_topics self"
    and le: "length expElogthetad = num_topics self"
    and it: "0 < iterations self"
  shows "\<exists>conv.
     infer_doc ps self [] gammad expElogthetad
       = Inr ((alpha self, map exp (dirichlet_expectation ps (alpha self)), []), conv, [], []) \<and>
     gamma_body ps (alpha self) [] [] (gammad, expElogthetad, [])
       = Inr ((alpha self, map exp (dirichlet_expectation ps (alpha self)), []),
              mean_abs_change (alpha self) gammad) \<and>
     gamma_body ps (alpha self) [] [] (alpha self, map exp (dirichlet_expectation ps (alpha self)), [])
       = Inr ((alpha self, map exp (dirichlet_expectation ps (alpha self)), []), 0)"
proof -
  from ws have a: "length (alpha self) = num_topics self" by (simp add: well_shaped_def)
  from it obtain n where n: "nat (iterations self) = Suc n"
    by (cases "nat (iterations self)") auto
  from gamma_loop_empty [OF a k lg le, of ps "gamma_threshold self" n] obtain conv where
    "gamma_loop ps (alpha self) [] [] (gamma_threshold self) (Suc n) (gammad, expElogthetad, [])
       = Inr ((alpha self, map exp (dirichlet_expectation ps (alpha self)), []), conv)" by blast
  then have 1: "infer_doc ps self [] gammad expElogthetad
       = Inr ((alpha self, map exp (dirichlet_expectation ps (alpha self)), []), conv, [], [])"
    by (simp add: infer_doc_def n phinorm_of_def Let_def del: gamma_loop.simps)
  have le': "length (map exp (dirichlet_expectation ps (alpha self))) = num_topics self"
    using a by (simp add: dirichlet_expectation_def)
  note 2 = gamma_body_empty [OF a k lg le, of ps]
  have 3: "gamma_body ps (alpha self) [] []
             (alpha self, map exp (dirichlet_expectation ps (alpha self)), [])
       = Inr ((alpha self, map exp (dirichlet_expectation ps (alpha self)), []), 0)"
    using gamma_body_empty [OF a k a le', of ps] by (simp add: mean_abs_change_same)
  from 1 2 3 show ?thesis by blast
qed

theorem infer_doc_empty_document_witness:
  "well_shaped m0 \<and> 0 < num_topics m0 \<and> length [1, 1 :: real] = num_topics m0
   \<and> 0 < iterations m0
   \<and> (\<exists>conv. infer_doc (psi rt0) m0 [] [1, 1] [1, 1]
         = Inr (([1 / 2, 1 / 2], [exp (- 1), exp (- 1)], []), conv, [], []))"
proof -
  have h: "well_shaped m0" "0 < num_topics m0" "length [1, 1 :: real] = num_topics m0"
    "0 < iterations m0"
    using well_shaped_m0 by (simp_all add: m0_def)
  have e: "map exp (dirichlet_expectation (psi rt0) (alpha m0)) = [exp (- 1), exp (- 1)]"
    by (simp add: dirichlet_expectation_def rt0_def m0_def)
  from infer_doc_empty_document [OF h(1) h(2) h(3) h(3) h(4), of "psi rt0"] h e
  show ?thesis by (simp add: m0_def)
qed

lemma inference_docs_None:
  "inference_docs ps self ds None = Inr (g, sst, c) \<Longrightarrow> sst = None"
proof (induction ds arbitrary: g c)
  case Nil then show ?case by simp
next
  case (Cons d ds)
  obtain doc gammad eth where d: "d = (doc, gammad, eth)" by (cases d) auto
  from Cons.prems show ?case
    unfolding d by (auto split: sum.splits prod.splits dest: Cons.IH)
qed

lemma inference_frame:
  assumes "inference rt w chunk collect = Inr ((gamma, sst), w')"
  shows "w' = w\<lparr>rng := rng w'\<rparr>"
  using assms by (auto simp: inference_def Let_def split: if_splits prod.splits sum.splits)

lemma inference_depends:
  assumes "model w2 = model w" and "rng w2 = rng w"
  shows "inference rt w2 chunk collect
           = map_sum id (\<lambda>(r, w'). (r, w2\<lparr>rng := rng w'\<rparr>)) (inference rt w chunk collect)"
  using assms by (auto simp: inference_def Let_def split: if_splits prod.splits sum.splits)

text \<open>
  C9. A call \<^verbatim>\<open>inference(chunk, collect_sstats=False)\<close> that returns leaves the model
  object (\<open>alpha\<close>, \<open>state\<close> with \<open>sstats\<close>, \<open>num_updates\<close>, \<open>expElogbeta\<close>, \<dots>) and
  the \<open>eta\<close> arrays as they were, and returns no \<open>sstats\<close>; it only advances the
  random generator. Called again with the generator set back to the same state, or
  called in any program state with the same model and generator state, it returns the
  same \<open>gamma\<close>.
\<close>

theorem inference_read_only:
  assumes "inference rt w chunk False = Inr ((gamma, sst), w')"
  shows "model w' = model w \<and> heap w' = heap w \<and> rho_log w' = rho_log w \<and> sst = None \<and>
         inference rt (w'\<lparr>rng := rng w\<rparr>) chunk False = Inr ((gamma, None), w') \<and>
         (\<forall>w2. model w2 = model w \<and> rng w2 = rng w \<longrightarrow>
            (\<exists>w2'. inference rt w2 chunk False = Inr ((gamma, None), w2')))"
proof -
  note f = inference_frame [OF assms]
  have m: "model w' = model w" "heap w' = heap w" "rho_log w' = rho_log w"
    by (subst f, simp)+
  have n: "sst = None"
    using assms
    by (auto simp: inference_def Let_def split: if_splits prod.splits sum.splits
          dest: inference_docs_None)
  have again: "inference rt (w'\<lparr>rng := rng w\<rparr>) chunk False = Inr ((gamma, None), w')"
    using inference_depends [of "w'\<lparr>rng := rng w\<rparr>" w rt chunk False] m assms n by simp
  have det: "\<forall>w2. model w2 = model w \<and> rng w2 = rng w \<longrightarrow>
            (\<exists>w2'. inference rt w2 chunk False = Inr ((gamma, None), w2'))"
    using inference_depends [of _ w rt chunk False] assms n by simp
  from m n again det show ?thesis by blast
qed

lemma draws0: "draws (gamma_sample rt0) 2 0 = ([1, 1], 2)"
  by (simp add: rt0_def numeral_2_eq_2)

lemma inference0:
  "inference rt0 (w0\<lparr>model := m0\<lparr>iterations := 0\<rparr>\<rparr>) [[(0, 3)]] False
     = Inr (([[1, 1]], None), w0\<lparr>model := m0\<lparr>iterations := 0\<rparr>, rng := 2\<rparr>)"
proof -
  have ws: "well_shaped (m0\<lparr>iterations := 0\<rparr>)"
    by (simp add: well_shaped_def m0_def numeral_2_eq_2)
  have nt: "num_topics (m0\<lparr>iterations := 0\<rparr>) = 2" by (simp add: m0_def)
  have d: "infer_doc (psi rt0) (m0\<lparr>iterations := 0\<rparr>) [(0, 3)] g e
             = Inr ((g, e, phinorm_of e [[1, 1]]), False, [0], [3])" for g e
    by (simp add: infer_doc_def np_index_def m0_def Let_def)
  have "inference rt0 (w0\<lparr>model := m0\<lparr>iterations := 0\<rparr>\<rparr>) [[(0, 3)]] False
     = Inr (([[1, 1]], None), w0\<lparr>model := m0\<lparr>iterations := 0\<rparr>\<rparr>\<lparr>rng := 2\<rparr>)"
    unfolding inference_def Let_def
    using ws by (simp add: nt draws0 d w0_def dirichlet_expectation2_def)
  then show ?thesis by simp
qed

theorem inference_read_only_witness:
  "inference rt0 (w0\<lparr>model := m0\<lparr>iterations := 0\<rparr>\<rparr>) [[(0, 3)]] False
     = Inr (([[1, 1]], None), w0\<lparr>model := m0\<lparr>iterations := 0\<rparr>, rng := 2\<rparr>)
   \<and> inference rt0 (w0\<lparr>model := m0\<lparr>iterations := 0\<rparr>, rng := 2\<rparr>\<lparr>rng := 0\<rparr>) [[(0, 3)]] False
     = Inr (([[1, 1]], None), w0\<lparr>model := m0\<lparr>iterations := 0\<rparr>, rng := 2\<rparr>)"
proof -
  have r: "rng (w0\<lparr>model := m0\<lparr>iterations := 0\<rparr>\<rparr>) = 0" by (simp add: w0_def)
  from inference_read_only [OF inference0] inference0 r show ?thesis by simp
qed

section \<open>do_mstep\<close>

lemma update_eta_frame:
  assumes "update_eta rt w lambdat rhot = Inr (e, w')"
  shows "model w' = model w \<and> rng w' = rng w \<and> rho_log w' = rho_log w \<and>
         (\<forall>a. a \<noteq> eta (model w) \<longrightarrow> heap w' a = heap w a)"
  using assms
  by (auto simp: update_eta_def Let_def split: prior.splits sum.splits if_splits)

lemma print_topics_frame:
  "model (print_topics rt w) = model w \<and> heap (print_topics rt w) = heap w \<and>
   rho_log (print_topics rt w) = rho_log w"
  by (simp add: print_topics_def)

lemma sync_state_result:
  assumes "sync_state rt w = Inr w'"
  shows "\<exists>E. get_Elogbeta (psi rt) (heap w) (state (model w)) = Inr E \<and>
             w' = w\<lparr>model := (model w)\<lparr>expElogbeta := map (map exp) E\<rparr>\<rparr>"
  using assms by (auto simp: sync_state_def split: sum.splits)

lemma do_mstep_cache:
  assumes "do_mstep rt w rhot other extra_pass = Inr w'"
  shows "\<exists>st E. blend (state (model w)) rhot (Some other) None = Inr st \<and>
           state (model w') = st \<and>
           get_Elogbeta (psi rt) (heap w) st = Inr E \<and>
           expElogbeta (model w') = map (map exp) E \<and>
           rho_log w' = rho_log w @ [rhot] \<and>
           num_updates (model w') = num_updates (model w) + (if extra_pass then 0 else numdocs other) \<and>
           (\<not> optimize_eta (model w) \<longrightarrow> heap w' = heap w) \<and>
           (\<forall>a. a \<noteq> eta (model w) \<longrightarrow> heap w' a = heap w a)"
proof -
  from assms obtain st where b: "blend (state (model w)) rhot (Some other) None = Inr st"
    by (auto simp: do_mstep_def split: sum.splits)
  let ?w1 = "w\<lparr>model := (model w)\<lparr>state := st\<rparr>\<rparr>"
  from assms b obtain E0 where "get_Elogbeta (psi rt) (heap ?w1) (state (model ?w1)) = Inr E0"
    by (auto simp: do_mstep_def Let_def split: sum.splits)
  from assms b this obtain w2 where s: "sync_state rt ?w1 = Inr w2"
    by (auto simp: do_mstep_def Let_def split: sum.splits)
  from sync_state_result [OF s] obtain E where
    E: "get_Elogbeta (psi rt) (heap w) st = Inr E"
    and w2: "w2 = ?w1\<lparr>model := (model ?w1)\<lparr>expElogbeta := map (map exp) E\<rparr>\<rparr>" by auto
  let ?w3 = "(print_topics rt w2)\<lparr>rho_log := rho_log (print_topics rt w2) @ [rhot]\<rparr>"
  have m3: "model ?w3 = (model w)\<lparr>state := st, expElogbeta := map (map exp) E\<rparr>"
    and h3: "heap ?w3 = heap w" and l3: "rho_log ?w3 = rho_log w @ [rhot]"
    using print_topics_frame [of rt w2] w2 by simp_all
  from assms b s \<open>get_Elogbeta (psi rt) (heap ?w1) (state (model ?w1)) = Inr E0\<close>
  obtain w5 where
    eta: "(if optimize_eta (model ?w3)
           then (case get_lambda (heap ?w3) (state (model ?w3)) of
                   Inl e \<Rightarrow> Inl e
                 | Inr lambdat \<Rightarrow>
                     (case update_eta rt ?w3 lambdat rhot of
                        Inl e \<Rightarrow> Inl e
                      | Inr (e, w) \<Rightarrow> Inr w))
           else Inr ?w3) = Inr w5"
    and fin: "w' = (if \<not> extra_pass
               then w5\<lparr>model := (model w5)\<lparr>num_updates := num_updates (model w5) + numdocs other\<rparr>\<rparr>
               else w5)"
    by (auto simp: do_mstep_def Let_def split: sum.splits if_splits)
  have w5: "model w5 = model ?w3 \<and> rho_log w5 = rho_log ?w3 \<and>
            (\<not> optimize_eta (model w) \<longrightarrow> heap w5 = heap ?w3) \<and>
            (\<forall>a. a \<noteq> eta (model w) \<longrightarrow> heap w5 a = heap ?w3 a)"
  proof (cases "optimize_eta (model ?w3)")
    case False
    with eta have "w5 = ?w3" by simp
    then show ?thesis by simp
  next
    case True
    with eta obtain lambdat e where "update_eta rt ?w3 lambdat rhot = Inr (e, w5)"
      by (auto split: sum.splits)
    from update_eta_frame [OF this] True m3 show ?thesis by simp
  qed
  from w5 m3 h3 l3 fin b E show ?thesis by (auto split: if_splits)
qed

lemma blend1:
  "blend (state (model w_auto)) (1 / 2) (Some other_estep) None
     = Inr \<lparr>LdaState.eta = 0, sstats = [[11 / 2, 11 / 2], [11 / 2, 11 / 2]], numdocs = 5\<rparr>"
  by (simp add: w_auto_def w0_def other_estep_def blend_def blend_scale_def mat_iadd_def same_shape_def
        mat_scale_def mat_add_def Let_def)

lemma Elogbeta1:
  "get_Elogbeta (psi rt0) (\<lambda>_. Column [1 / 2, 1 / 2])
     \<lparr>LdaState.eta = 0, sstats = [[11 / 2, 11 / 2], [11 / 2, 11 / 2]], numdocs = 5\<rparr>
     = Inr [[- (1 / 12), - (1 / 12)], [- (1 / 12), - (1 / 12)]]"
  by (simp add: get_Elogbeta_def get_lambda_def prior_add_def dirichlet_expectation2_def rt0_def)

lemma lambda1:
  "get_lambda (\<lambda>_. Column [1 / 2, 1 / 2])
     \<lparr>LdaState.eta = 0, sstats = [[11 / 2, 11 / 2], [11 / 2, 11 / 2]], numdocs = 5\<rparr>
     = Inr [[6, 6], [6, 6]]"
  by (simp add: get_lambda_def prior_add_def)

lemma newton1:
  "newton_step (psi rt0) (polygamma1 rt0) [1 / 2, 1 / 2] [- (1 / 12), - (1 / 12)] 2
     = Inr [11 / 24, 11 / 24]"
  by (simp add: newton_step_def rt0_def vec_div_def np_div_def Let_def)

lemma update_eta1:
  assumes "model w = m0\<lparr>optimize_eta := True, state := st, expElogbeta := E\<rparr>"
    and "heap w = (\<lambda>_. Column [1 / 2, 1 / 2])"
  shows "update_eta rt0 w [[6, 6], [6, 6]] (1 / 2)
     = Inr (Column [35 / 48, 35 / 48],
            w\<lparr>heap := (\<lambda>_. Column [1 / 2, 1 / 2])(0 := Column [35 / 48, 35 / 48])\<rparr>)"
proof -
  have c: "columns 2 [[6, 6], [6, 6 :: real]] = [[6, 6], [6, 6]]"
    by (simp add: columns_def numeral_2_eq_2)
  have d: "dirichlet_expectation (psi rt0) [6, 6] = [- (1 / 12), - (1 / 12)]"
    by (simp add: dirichlet_expectation_def rt0_def)
  have m: "mean_rows [[- (1 / 12), - (1 / 12)], [- (1 / 12), - (1 / 12) :: real]] = Inr [- (1 / 12), - (1 / 12)]"
    by (simp add: mean_rows_def)
  have f: "num_terms (model w) = 2" "num_topics (model w) = 2" "eta (model w) = 0"
    using assms(1) by (simp_all add: m0_def)
  show ?thesis
    by (simp add: update_eta_def f assms(2) c d m newton1 step_positive_def Let_def)
qed

lemma do_mstep1: "do_mstep rt0 w_auto (1 / 2) other_estep False = Inr w_auto'"
proof -
  let ?st = "\<lparr>LdaState.eta = 0, sstats = [[11 / 2, 11 / 2], [11 / 2, 11 / 2]], numdocs = 5\<rparr>"
  let ?wa = "w_auto\<lparr>model := (model w_auto)\<lparr>state := ?st\<rparr>\<rparr>"
  have h: "heap ?wa = (\<lambda>_. Column [1 / 2, 1 / 2])" "state (model ?wa) = ?st"
    by (simp_all add: w_auto_def w0_def)
  have s: "sync_state rt0 ?wa
     = Inr (?wa\<lparr>model := (model ?wa)\<lparr>expElogbeta := [[exp (- (1 / 12)), exp (- (1 / 12))],
                                      [exp (- (1 / 12)), exp (- (1 / 12))]]\<rparr>\<rparr>)"
    by (simp add: sync_state_def h Elogbeta1)
  let ?wb = "?wa\<lparr>model := (model ?wa)\<lparr>expElogbeta := [[exp (- (1 / 12)), exp (- (1 / 12))],
                                      [exp (- (1 / 12)), exp (- (1 / 12))]]\<rparr>\<rparr>"
  have p: "print_topics rt0 ?wb = ?wb"
    by (simp add: print_topics_def w_auto_def w0_def m0_def)
  let ?wc = "?wb\<lparr>rho_log := rho_log ?wb @ [1 / 2]\<rparr>"
  have mc: "model ?wc = m0\<lparr>optimize_eta := True, state := ?st,
              expElogbeta := [[exp (- (1 / 12)), exp (- (1 / 12))],
                              [exp (- (1 / 12)), exp (- (1 / 12))]]\<rparr>"
    and hc: "heap ?wc = (\<lambda>_. Column [1 / 2, 1 / 2])"
    by (simp_all add: w_auto_def w0_def)
  note u = update_eta1 [OF mc hc]
  have oc: "optimize_eta (model ?wc)" "state (model ?wc) = ?st"
    by (simp_all add: w_auto_def w0_def)
  show ?thesis
    unfolding do_mstep_def
    apply (simp only: blend1 sum.case Let_def h Elogbeta1 s p)
    apply (simp only: oc hc lambda1 u sum.case if_True prod.case)
    apply (simp add: w_auto'_def w_auto_def w0_def other_estep_def m0_def)
    done
qed

lemma Elogbeta1':
  "get_Elogbeta (psi rt0) (heap w_auto') (state (model w_auto'))
     = Inr [[- (24 / 299), - (24 / 299)], [- (24 / 299), - (24 / 299)]]"
  by (simp add: w_auto'_def get_Elogbeta_def get_lambda_def prior_add_def
        dirichlet_expectation2_def rt0_def)

text \<open>
  C4 fails in the code when \<^verbatim>\<open>eta\<close> is optimized. For the model built with
  \<^verbatim>\<open>eta='auto'\<close> (with \<open>- 1 / x\<close> standing in for \<^verbatim>\<open>psi\<close>), \<^verbatim>\<open>do_mstep\<close>
  blends, recomputes \<open>expElogbeta\<close> from \<open>eta = [1/2, 1/2]\<close>, and then \<^verbatim>\<open>update_eta\<close>
  changes \<open>eta\<close> in place to \<open>[35/48, 35/48]\<close>: when \<^verbatim>\<open>do_mstep\<close> returns,
  \<open>expElogbeta\<close> is \<open>exp (- 1/12)\<close> in every entry, while the Dirichlet expectation of
  the current \<open>lambda = eta + sstats\<close> is \<open>- 24/299\<close>.
\<close>

theorem do_mstep_cache_stale_after_eta:
  "do_mstep rt0 w_auto (1 / 2) other_estep False = Inr w_auto'
   \<and> heap w_auto' (eta (model w_auto')) = Column [35 / 48, 35 / 48]
   \<and> expElogbeta (model w_auto')
        = [[exp (- (1 / 12)), exp (- (1 / 12))], [exp (- (1 / 12)), exp (- (1 / 12))]]
   \<and> get_Elogbeta (psi rt0) (heap w_auto') (state (model w_auto'))
        = Inr [[- (24 / 299), - (24 / 299)], [- (24 / 299), - (24 / 299)]]
   \<and> \<not> synced rt0 w_auto'"
proof -
  have e: "expElogbeta (model w_auto')
        = [[exp (- (1 / 12)), exp (- (1 / 12))], [exp (- (1 / 12)), exp (- (1 / 12))]]"
    by (simp add: w_auto'_def)
  have h: "heap w_auto' (eta (model w_auto')) = Column [35 / 48, 35 / 48]"
    by (simp add: w_auto'_def m0_def)
  have "\<not> synced rt0 w_auto'"
    by (simp add: synced_def Elogbeta1' e)
  with do_mstep1 h e Elogbeta1' show ?thesis by simp
qed

text \<open>
  What holds for every \<^verbatim>\<open>do_mstep\<close> that returns: \<open>expElogbeta\<close> matches the
  \<open>lambda\<close> of the blended state with \<open>eta\<close> as it was before the call, which is the
  current \<open>lambda\<close> when \<open>eta\<close> is not optimized.
\<close>

lemma do_mstep_synced_without_eta:
  assumes "do_mstep rt w rhot other extra_pass = Inr w'" and "\<not> optimize_eta (model w)"
  shows "synced rt w'"
  using do_mstep_cache [OF assms(1)] assms(2) by (auto simp: synced_def)

section \<open>update: the learning rate\<close>

lemma rho_rho_at: "rho rt l p w = rho_at rt l p (num_updates (model w))"
  by (simp add: rho_def rho_at_def)

lemma draws_length: "length (fst (draws f n r)) = n"
proof (induction n arbitrary: r)
  case 0 show ?case by simp
next
  case (Suc n)
  obtain x r1 where 1: "f r = (x, r1)" by (cases "f r") auto
  obtain xs r2 where 2: "draws f n r1 = (xs, r2)" by (cases "draws f n r1") auto
  from Suc [of r1] 1 2 show ?case by simp
qed

lemma draw_matrix_length: "length (fst (draw_matrix f n k r)) = n"
proof (induction n arbitrary: r)
  case 0 show ?case by simp
next
  case (Suc n)
  obtain x r1 where 1: "draws f k r = (x, r1)" by (cases "draws f k r") auto
  obtain xs r2 where 2: "draw_matrix f n k r1 = (xs, r2)" by (cases "draw_matrix f n k r1") auto
  from Suc [of r1] 1 2 show ?case by simp
qed

lemma inference_docs_length:
  "inference_docs ps self ds sst = Inr (g, sst', c) \<Longrightarrow> length g = length ds"
proof (induction ds arbitrary: g sst sst' c)
  case Nil then show ?case by simp
next
  case (Cons d ds)
  obtain doc gammad eth where d: "d = (doc, gammad, eth)" by (cases d) auto
  from Cons.prems show ?case
    unfolding d by (auto split: sum.splits prod.splits option.splits dest: Cons.IH)
qed

lemma inference_length:
  assumes "inference rt w chunk collect = Inr ((gamma, sst), w')"
  shows "length gamma = length chunk"
proof -
  obtain g0 r where d: "draw_matrix (gamma_sample rt) (length chunk) (num_topics (model w)) (rng w) = (g0, r)"
    by (cases "draw_matrix (gamma_sample rt) (length chunk) (num_topics (model w)) (rng w)") auto
  from draw_matrix_length [of "gamma_sample rt" "length chunk" "num_topics (model w)" "rng w"] d
  have l: "length g0 = length chunk" by simp
  from assms d obtain s c where
    "inference_docs (psi rt) (model w)
       (zip chunk (zip g0 (map (map exp) (dirichlet_expectation2 (psi rt) g0))))
       (if collect then Some (zeros_like (expElogbeta (model w))) else None) = Inr (gamma, s, c)"
    by (auto simp: inference_def Let_def split: if_splits sum.splits)
  from inference_docs_length [OF this] l show ?thesis
    by (simp add: dirichlet_expectation2_def)
qed

lemma do_estep_other:
  assumes "do_estep rt w chunk (Some other) = Inr ((gamma, other'), w')"
  shows "w' = w\<lparr>rng := rng w'\<rparr> \<and> numdocs other' = numdocs other + int (length chunk)"
proof -
  from assms obtain sst where i: "inference rt w chunk True = Inr ((gamma, sst), w')"
    and a: "estep_accumulate other sst gamma = Inr other'"
    by (auto simp: do_estep_def split: sum.splits)
  from a have "numdocs other' = numdocs other + int (length gamma)"
    by (auto simp: estep_accumulate_def split: option.splits sum.splits)
  with inference_frame [OF i] inference_length [OF i] show ?thesis by simp
qed

lemma bound_doc_frame:
  assumes "bound_doc rt w E g d doc = Inr (x, w')"
  shows "w' = w\<lparr>rng := rng w'\<rparr>"
proof (cases g)
  case None
  with assms obtain gm s where "inference rt w [doc] False = Inr ((gm, s), w')"
    by (auto simp: bound_doc_def Let_def split: sum.splits list.splits)
  then show ?thesis by (rule inference_frame)
next
  case (Some gm)
  with assms have "w' = w"
    by (auto simp: bound_doc_def Let_def split: sum.splits if_splits)
  then show ?thesis by simp
qed

lemma bound_docs_frame:
  "bound_docs rt w E g d docs score = Inr (x, w') \<Longrightarrow> w' = w\<lparr>rng := rng w'\<rparr>"
proof (induction docs arbitrary: w d score)
  case Nil then show ?case by simp
next
  case (Cons doc docs)
  from Cons.prems obtain y w1 where 1: "bound_doc rt w E g d doc = Inr (y, w1)"
    and 2: "bound_docs rt w1 E g (Suc d) docs (score + y) = Inr (x, w')"
    by (auto split: sum.splits)
  from bound_doc_frame [OF 1] Cons.IH [OF 2] show ?case
    by (metis (no_types, lifting) world.surjective world.update_convs(3))
qed

lemma log_perplexity_frame:
  assumes "log_perplexity rt w chunk t = Inr (x, w')"
  shows "w' = w\<lparr>rng := rng w'\<rparr>"
proof -
  from assms obtain r b where "bound rt w chunk None r = Inr (b, w')"
    by (auto simp: log_perplexity_def Let_def split: sum.splits)
  then obtain E s where "bound_docs rt w E None 0 chunk 0 = Inr (s, w')"
    by (auto simp: bound_def Let_def split: sum.splits)
  then show ?thesis by (rule bound_docs_frame)
qed

lemma update_alpha_frame:
  assumes "update_alpha rt w gammat rhot = Inr (a, w')"
  shows "num_updates (model w') = num_updates (model w) \<and> rho_log w' = rho_log w"
  using assms by (auto simp: update_alpha_def Let_def split: sum.splits if_splits)

lemma mstep_call_log:
  assumes "mstep_call rt l p other w = Inr w'"
  shows "\<exists>r. rho_at rt l p (num_updates (model w)) = Inr r \<and> rho_log w' = rho_log w @ [r] \<and>
             num_updates (model w') = (if p > 0 then num_updates (model w)
                                       else num_updates (model w) + numdocs other)"
proof -
  from assms obtain r where r: "rho rt l p w = Inr r"
    and d: "do_mstep rt w r other (p > 0) = Inr w'"
    by (auto simp: mstep_call_def split: sum.splits)
  from do_mstep_cache [OF d] r show ?thesis by (auto simp: rho_rho_at)
qed

lemma LdaState_init_numdocs: "numdocs (LdaState_init e m) = 0"
  by (simp add: LdaState_init_def)

lemma chunk_loop_step:
  assumes "chunk_loop rt l p (chunk # rest) ck (other, dirty, reallen, pwb) w = Inr res"
  shows "\<exists>pwb1 other1 w3.
           num_updates (model w3) = num_updates (model w) \<and> rho_log w3 = rho_log w \<and>
           numdocs other1 = numdocs other + int (length chunk) \<and>
           (if mstep_due l ck
            then \<exists>w4. mstep_call rt l p other1 w3 = Inr w4 \<and>
                   chunk_loop rt l p rest (ck + 1)
                     (LdaState_init (eta (model w4)) (sstats (state (model w4))), False,
                      reallen + int (length chunk), pwb1) w4 = Inr res
            else chunk_loop rt l p rest (ck + 1)
                   (other1, True, reallen + int (length chunk), pwb1) w3 = Inr res)"
proof -
  let ?E1 = "if eval_due l (reallen + int (length chunk)) ck
             then (case log_perplexity rt w chunk (Some (lencorpus l)) of
                     Inl e \<Rightarrow> Inl e
                   | Inr (p, w) \<Rightarrow> Inr (Some p, w))
             else Inr (pwb, w)"
  from assms obtain pwb1 w1 where e1: "?E1 = Inr (pwb1, w1)"
    by (cases ?E1) (auto simp: Let_def)
  have f1: "num_updates (model w1) = num_updates (model w) \<and> rho_log w1 = rho_log w"
  proof (cases "eval_due l (reallen + int (length chunk)) ck")
    case True
    with e1 obtain x where "log_perplexity rt w chunk (Some (lencorpus l)) = Inr (x, w1)"
      by (auto split: sum.splits)
    from log_perplexity_frame [OF this] show ?thesis
      by (metis world.select_convs(1,4) world.surjective world.update_convs(3))
  next
    case False
    with e1 show ?thesis by simp
  qed
  from assms e1 obtain gammat other1 w2 where
    e2: "do_estep rt w1 chunk (Some other) = Inr ((gammat, other1), w2)"
    by (cases "do_estep rt w1 chunk (Some other)") (auto simp: Let_def)
  from do_estep_other [OF e2] have
    f2: "num_updates (model w2) = num_updates (model w1) \<and> rho_log w2 = rho_log w1"
    by (metis world.select_convs(1,4) world.surjective world.update_convs(3))
  from do_estep_other [OF e2] have
    n2: "numdocs other1 = numdocs other + int (length chunk)" by simp
  let ?E3 = "if optimize_alpha (model w2)
             then (case rho rt l p w2 of
                     Inl e \<Rightarrow> Inl e
                   | Inr rhot \<Rightarrow>
                       (case update_alpha rt w2 gammat rhot of
                          Inl e \<Rightarrow> Inl e
                        | Inr (a, w) \<Rightarrow> Inr w))
             else Inr w2"
  from assms e1 e2 obtain w3 where e3: "?E3 = Inr w3"
    by (cases ?E3) (auto simp: Let_def)
  have f3: "num_updates (model w3) = num_updates (model w2) \<and> rho_log w3 = rho_log w2"
  proof (cases "optimize_alpha (model w2)")
    case True
    with e3 obtain r a where "update_alpha rt w2 gammat r = Inr (a, w3)"
      by (auto split: sum.splits)
    from update_alpha_frame [OF this] show ?thesis .
  next
    case False
    with e3 show ?thesis by simp
  qed
  have rest: "if mstep_due l ck
            then \<exists>w4. mstep_call rt l p other1 w3 = Inr w4 \<and>
                   chunk_loop rt l p rest (ck + 1)
                     (LdaState_init (eta (model w4)) (sstats (state (model w4))), False,
                      reallen + int (length chunk), pwb1) w4 = Inr res
            else chunk_loop rt l p rest (ck + 1)
                   (other1, True, reallen + int (length chunk), pwb1) w3 = Inr res"
    using assms e1 e2 e3
    by (cases "mstep_call rt l p other1 w3") (auto simp: Let_def)
  from f1 f2 f3 n2 rest show ?thesis by (intro exI [of _ pwb1] exI [of _ other1] exI [of _ w3]) simp
qed

lemma chunk_loop_log:
  "chunk_loop rt l p chunks ck (other, dirty, reallen, pwb) w
      = Inr ((other', dirty', reallen', pwb'), w') \<Longrightarrow>
   \<exists>rs. rho_log w' = rho_log w @ rs \<and>
        chunk_sched rt l p (map length chunks) ck (numdocs other, dirty, num_updates (model w))
          = (map Inr rs, (numdocs other', dirty', num_updates (model w')))"
proof (induction chunks arbitrary: ck other dirty reallen pwb w)
  case Nil
  then show ?case by simp
next
  case (Cons chunk rest)
  from chunk_loop_step [OF Cons.prems] obtain pwb1 other1 w3 where
    u3: "num_updates (model w3) = num_updates (model w)" and l3: "rho_log w3 = rho_log w"
    and n1: "numdocs other1 = numdocs other + int (length chunk)"
    and rest: "if mstep_due l ck
            then \<exists>w4. mstep_call rt l p other1 w3 = Inr w4 \<and>
                   chunk_loop rt l p rest (ck + 1)
                     (LdaState_init (eta (model w4)) (sstats (state (model w4))), False,
                      reallen + int (length chunk), pwb1) w4
                     = Inr ((other', dirty', reallen', pwb'), w')
            else chunk_loop rt l p rest (ck + 1)
                   (other1, True, reallen + int (length chunk), pwb1) w3
                   = Inr ((other', dirty', reallen', pwb'), w')"
    by blast
  show ?case
  proof (cases "mstep_due l ck")
    case True
    with rest obtain w4 where m: "mstep_call rt l p other1 w3 = Inr w4"
      and c: "chunk_loop rt l p rest (ck + 1)
                (LdaState_init (eta (model w4)) (sstats (state (model w4))), False,
                 reallen + int (length chunk), pwb1) w4
                = Inr ((other', dirty', reallen', pwb'), w')" by auto
    from mstep_call_log [OF m] obtain r where
      r: "rho_at rt l p (num_updates (model w3)) = Inr r"
      and l4: "rho_log w4 = rho_log w3 @ [r]"
      and u4: "num_updates (model w4) = (if p > 0 then num_updates (model w3)
                                         else num_updates (model w3) + numdocs other1)"
      by blast
    from Cons.IH [OF c] obtain rs where
      lw: "rho_log w' = rho_log w4 @ rs"
      and s: "chunk_sched rt l p (map length rest) (ck + 1) (0, False, num_updates (model w4))
                = (map Inr rs, (numdocs other', dirty', num_updates (model w')))"
      by (auto simp: LdaState_init_numdocs)
    have r': "rho_at rt l p (num_updates (model w)) = Inr r" using r u3 by simp
    have "chunk_sched rt l p (map length (chunk # rest)) ck
            (numdocs other, dirty, num_updates (model w))
          = (map Inr (r # rs), (numdocs other', dirty', num_updates (model w')))"
    proof (cases "0 < p")
      case p: True
      with s u4 u3 have "chunk_sched rt l p (map length rest) (ck + 1)
          (0, False, num_updates (model w))
          = (map Inr rs, (numdocs other', dirty', num_updates (model w')))" by simp
      with True p r' show ?thesis by simp
    next
      case p: False
      with s u4 u3 n1 have "chunk_sched rt l p (map length rest) (ck + 1)
          (0, False, num_updates (model w) + (numdocs other + int (length chunk)))
          = (map Inr rs, (numdocs other', dirty', num_updates (model w')))" by simp
      with True p r' show ?thesis by simp
    qed
    moreover have "rho_log w' = rho_log w @ (r # rs)" using lw l4 l3 by simp
    ultimately show ?thesis by blast
  next
    case False
    with rest have c: "chunk_loop rt l p rest (ck + 1)
                   (other1, True, reallen + int (length chunk), pwb1) w3
                   = Inr ((other', dirty', reallen', pwb'), w')" by simp
    from Cons.IH [OF c] obtain rs where
      lw: "rho_log w' = rho_log w3 @ rs"
      and s: "chunk_sched rt l p (map length rest) (ck + 1)
                (numdocs other1, True, num_updates (model w3))
                = (map Inr rs, (numdocs other', dirty', num_updates (model w')))"
      by auto
    have "chunk_sched rt l p (map length (chunk # rest)) ck
            (numdocs other, dirty, num_updates (model w))
          = (map Inr rs, (numdocs other', dirty', num_updates (model w')))"
      using False s u3 n1 by simp
    moreover have "rho_log w' = rho_log w @ rs" using lw l3 by simp
    ultimately show ?thesis by blast
  qed
qed

lemma body_log:
  assumes b: "bound_iteration_body rt l corpus p base b w = Inr (pwb, w')"
    and u: "b = 0 \<longrightarrow> num_updates (model w) = base"
  shows "\<exists>rs. rho_log w' = rho_log w @ rs \<and>
              body_sched rt l p (map length (grouper corpus (nat (chunksize l)))) base
                = map Inr rs"
proof -
  let ?w0 = "if b > 0 then w\<lparr>model := (model w)\<lparr>num_updates := base\<rparr>\<rparr> else w"
  let ?o = "LdaState_init (eta (model ?w0)) (sstats (state (model ?w0)))"
  let ?chunks = "grouper corpus (nat (chunksize l))"
  have u0: "num_updates (model ?w0) = base" and l0: "rho_log ?w0 = rho_log w"
    using u by auto
  from b obtain other' dirty' reallen' w1 where
    c: "chunk_loop rt l p ?chunks 0 (?o, False, 0, None) ?w0
          = Inr ((other', dirty', reallen', pwb), w1)"
    and m: "(if dirty' then mstep_call rt l p other' w1 else Inr w1) = Inr w'"
    unfolding bound_iteration_body_def Let_def
    by (auto split: sum.splits if_splits prod.splits)
  from chunk_loop_log [OF c] obtain rs where
    l1: "rho_log w1 = rho_log w @ rs"
    and s: "chunk_sched rt l p (map length ?chunks) 0 (0, False, base)
              = (map Inr rs, (numdocs other', dirty', num_updates (model w1)))"
    using u0 l0 by (auto simp: LdaState_init_numdocs)
  show ?thesis
  proof (cases dirty')
    case True
    with m have "mstep_call rt l p other' w1 = Inr w'" by simp
    from mstep_call_log [OF this] obtain r where
      r: "rho_at rt l p (num_updates (model w1)) = Inr r"
      and l': "rho_log w' = rho_log w1 @ [r]" by blast
    have "body_sched rt l p (map length ?chunks) base = map Inr (rs @ [r])"
      using s True r by (simp add: body_sched_def)
    moreover have "rho_log w' = rho_log w @ (rs @ [r])" using l' l1 by simp
    ultimately show ?thesis by blast
  next
    case False
    with m have "w' = w1" by simp
    moreover have "body_sched rt l p (map length ?chunks) base = map Inr rs"
      using s False by (simp add: body_sched_def)
    ultimately show ?thesis using l1 by blast
  qed
qed

lemma bound_loop_log:
  "bound_loop rt l corpus p base n b lastb w = Inr w' \<Longrightarrow>
   (b = 0 \<longrightarrow> num_updates (model w) = base) \<Longrightarrow>
   \<exists>rss. length rss \<le> n \<and>
     (\<forall>rs\<in>set rss. body_sched rt l p (map length (grouper corpus (nat (chunksize l)))) base
                      = map Inr rs) \<and>
     rho_log w' = rho_log w @ concat rss"
proof (induction n arbitrary: b lastb w)
  case 0
  then have "w' = w" by simp
  then show ?case by (intro exI [of _ "[]"]) simp
next
  case (Suc n)
  let ?sched = "body_sched rt l p (map length (grouper corpus (nat (chunksize l)))) base"
  from Suc.prems(1) obtain pwb w1 where
    body: "bound_iteration_body rt l corpus p base b w = Inr (pwb, w1)"
    by (cases "bound_iteration_body rt l corpus p base b w") auto
  from body_log [OF body Suc.prems(2)] obtain rs where
    l1: "rho_log w1 = rho_log w @ rs" and s: "?sched = map Inr rs"
    by blast
  have stop: "\<exists>rss. length rss \<le> Suc n \<and> (\<forall>rs\<in>set rss. ?sched = map Inr rs) \<and>
                rho_log w' = rho_log w @ concat rss" if "w' = w1"
    using that l1 s by (intro exI [of _ "[rs]"]) simp
  have go: "\<exists>rss. length rss \<le> Suc n \<and> (\<forall>rs\<in>set rss. ?sched = map Inr rs) \<and>
                rho_log w' = rho_log w @ concat rss"
    if "bound_loop rt l corpus p base n (Suc b) lastb' w1 = Inr w'" for lastb'
  proof -
    from Suc.IH [OF that] obtain rss where
      "length rss \<le> n" "\<forall>rs\<in>set rss. ?sched = map Inr rs"
      "rho_log w' = rho_log w1 @ concat rss" by auto
    with l1 s show ?thesis by (intro exI [of _ "rs # rss"]) simp
  qed
  show ?case
  proof (cases pwb)
    case None
    with Suc.prems(1) body
    have "bound_loop rt l corpus p base n (Suc b) lastb w1 = Inr w'" by simp
    then show ?thesis by (rule go)
  next
    case (Some x)
    show ?thesis
    proof (cases "np_div (lastb - x) lastb")
      case (Inl e)
      with Suc.prems(1) body Some show ?thesis by simp
    next
      case (Inr rel)
      show ?thesis
      proof (cases "rel < bound_improvement_threshold l")
        case True
        with Suc.prems(1) body Some Inr have "w' = w1" by simp
        then show ?thesis by (rule stop)
      next
        case False
        with Suc.prems(1) body Some Inr
        have "bound_loop rt l corpus p base n (Suc b) x w1 = Inr w'" by simp
        then show ?thesis by (rule go)
      qed
    qed
  qed
qed

lemma rho_at_value:
  assumes "chunksize l \<noteq> 0"
    and "0 < offset l + real p + int_quotient (python rt) u (chunksize l)"
  shows "rho_at rt l p u
           = Inr ((offset l + real p + int_quotient (python rt) u (chunksize l)) powr (- decay l))"
  using assms
  by (cases "python rt") (simp_all add: rho_at_def py_div_int_def py_pow_def int_quotient_def)

lemma int_quotient_Python3:
  "int_quotient Python3 u c = real_of_int u / real_of_int c"
  by (simp add: int_quotient_def)

text \<open>
  C6, as the code has it. The closure \<^verbatim>\<open>rho()\<close> returns
  \<open>(offset + p + q) powr (- decay)\<close> for the pass \<open>p\<close>, where \<open>q\<close> is
  \<^verbatim>\<open>self.num_updates / chunksize\<close> as the interpreter divides two integers: the floor
  quotient under Python 2, the quotient of the reals under Python 3 (where it is the
  formula of the specification). Every M-step of \<^verbatim>\<open>update\<close> is
  \<^verbatim>\<open>do_mstep(rho(), ...)\<close> and logs that value. A bound iteration after the first
  runs as the first one does from a state whose \<^verbatim>\<open>num_updates\<close> is the value at the
  start of the pass; so in a pass every bound iteration that completes logs the same
  learning rates, those that the sizes of the chunks and the value of
  \<^verbatim>\<open>num_updates\<close> at the start of the pass determine.
\<close>

theorem rho_schedule:
  "(chunksize l \<noteq> 0 \<and>
      0 < offset l + real p + int_quotient (python rt) (num_updates (model w)) (chunksize l) \<longrightarrow>
      rho rt l p w
        = Inr ((offset l + real p
                + int_quotient (python rt) (num_updates (model w)) (chunksize l))
               powr (- decay l)) \<and>
      (python rt = Python3 \<longrightarrow>
         rho rt l p w
           = Inr (rho_formula (offset l) p (num_updates (model w)) (chunksize l) (decay l))))
   \<and> (\<forall>other w'. mstep_call rt l p other w = Inr w' \<longrightarrow>
         (\<exists>r. rho rt l p w = Inr r \<and> rho_log w' = rho_log w @ [r]))
   \<and> (\<forall>base b. bound_iteration_body rt l corpus p base (Suc b) w
         = bound_iteration_body rt l corpus p base 0
             (w\<lparr>model := (model w)\<lparr>num_updates := base\<rparr>\<rparr>))
   \<and> (\<forall>n lastb w'.
         bound_loop rt l corpus p (num_updates (model w)) n 0 lastb w = Inr w' \<longrightarrow>
         (\<exists>rss. length rss \<le> n \<and>
            (\<forall>rs\<in>set rss.
               map Inr rs = body_sched rt l p (map length (grouper corpus (nat (chunksize l))))
                              (num_updates (model w))) \<and>
            rho_log w' = rho_log w @ concat rss))"
proof (intro conjI allI impI)
  assume a: "chunksize l \<noteq> 0 \<and>
      0 < offset l + real p + int_quotient (python rt) (num_updates (model w)) (chunksize l)"
  then show v: "rho rt l p w
        = Inr ((offset l + real p
                + int_quotient (python rt) (num_updates (model w)) (chunksize l))
               powr (- decay l))"
    by (simp add: rho_rho_at rho_at_value)
  assume "python rt = Python3"
  with v show "rho rt l p w
           = Inr (rho_formula (offset l) p (num_updates (model w)) (chunksize l) (decay l))"
    by (simp add: rho_formula_def int_quotient_Python3)
next
  fix other w' assume "mstep_call rt l p other w = Inr w'"
  from mstep_call_log [OF this]
  show "\<exists>r. rho rt l p w = Inr r \<and> rho_log w' = rho_log w @ [r]"
    by (auto simp: rho_rho_at)
next
  fix base b
  show "bound_iteration_body rt l corpus p base (Suc b) w
         = bound_iteration_body rt l corpus p base 0
             (w\<lparr>model := (model w)\<lparr>num_updates := base\<rparr>\<rparr>)"
    by (simp add: bound_iteration_body_def)
next
  fix n lastb w'
  assume "bound_loop rt l corpus p (num_updates (model w)) n 0 lastb w = Inr w'"
  from bound_loop_log [OF this]
  show "\<exists>rss. length rss \<le> n \<and>
            (\<forall>rs\<in>set rss.
               map Inr rs = body_sched rt l p (map length (grouper corpus (nat (chunksize l))))
                              (num_updates (model w))) \<and>
            rho_log w' = rho_log w @ concat rss"
    by (metis (no_types, lifting))
qed

lemma m_batch_fields:
  "num_topics m_batch = 2" "num_terms m_batch = 2" "alpha m_batch = [1 / 2, 1 / 2]"
  "expElogbeta m_batch = [[1, 1], [1, 1]]" "iterations m_batch = 0"
  "optimize_alpha m_batch = False" "optimize_eta m_batch = False"
  "state m_batch = \<lparr>LdaState.eta = 0, sstats = [[1, 1], [1, 1]], numdocs = 0\<rparr>"
  "eta m_batch = 0" "num_updates m_batch = 0"
  by (simp_all add: m_batch_def m0_def)

lemma l_batch_eq:
  "l_batch = \<lparr>lencorpus = 1, chunksize = 1, decay = 1 / 2, offset = 1, passes = 1,
               update_every = 0, eval_every = None, max_bound_iterations = 1,
               bound_improvement_threshold = 1 / 1000\<rparr>"
  by (simp add: l_batch_def update_locals_def m_batch_def m0_def corpus_batch_def kw0_def)

lemma well_shaped_m_batch: "well_shaped m_batch"
  by (simp add: well_shaped_def m_batch_fields numeral_2_eq_2)

lemma inference_batch:
  "\<exists>a b c d. inference rt0 w_batch [[(0, 3)]] True
     = Inr (([[1, 1]], Some [[a, b], [c, d]]), w_batch\<lparr>rng := 2\<rparr>)"
proof -
  have d: "draws (gamma_sample rt0) 2 0 = ([1, 1], 2)"
    by (simp add: rt0_def numeral_2_eq_2)
  have nz: "0 \<notin> set (phinorm_of [exp x, exp y] [[1, 1]])" for x y :: real
    by (rule phinorm_of_nonzero) (auto simp: less_imp_le)
  have i: "infer_doc (psi rt0) m_batch [(0, 3)] g e
             = Inr ((g, e, phinorm_of e [[1, 1]]), False, [0], [3])" for g e
    by (simp add: infer_doc_def np_index_def m_batch_fields Let_def)
  have w: "model w_batch = m_batch" "rng w_batch = 0" by (simp_all add: w_batch_def w0_def)
  show ?thesis
    unfolding inference_def Let_def
    using well_shaped_m_batch
    apply (simp add: w m_batch_fields d dirichlet_expectation2_def zeros_like_def mat_mul_def
             i vec_div_ok [OF nz] scatter_add_def outer_def)
    apply (simp add: phinorm_of_def)
    done
qed

lemma do_estep_batch:
  "\<exists>a b c d. do_estep rt0 w_batch [[(0, 3)]]
        (Some (LdaState_init (eta (model w_batch)) (sstats (state (model w_batch)))))
     = Inr (([[1, 1]], \<lparr>LdaState.eta = 0, sstats = [[a, b], [c, d]], numdocs = 1\<rparr>),
            w_batch\<lparr>rng := 2\<rparr>)"
proof -
  from inference_batch obtain a b c d where
    i: "inference rt0 w_batch [[(0, 3)]] True
          = Inr (([[1, 1]], Some [[a, b], [c, d]]), w_batch\<lparr>rng := 2\<rparr>)" by blast
  have w: "model w_batch = m_batch" by (simp add: w_batch_def)
  have "do_estep rt0 w_batch [[(0, 3)]]
        (Some (LdaState_init (eta (model w_batch)) (sstats (state (model w_batch)))))
     = Inr (([[1, 1]], \<lparr>LdaState.eta = 0, sstats = [[0 + a, 0 + b], [0 + c, 0 + d]],
                        numdocs = 1\<rparr>),
            w_batch\<lparr>rng := 2\<rparr>)"
    by (simp add: do_estep_def i estep_accumulate_def mat_iadd_def same_shape_def mat_add_def
          LdaState_init_def zeros_like_def w m_batch_fields)
  then show ?thesis by blast
qed

lemma rho_batch: "rho rt0 l_batch 0 w = Inr 1" if "num_updates (model w) = 0"
  using that by (simp add: rho_def l_batch_eq py_div_int_def rt0_def py_pow_def)

lemma do_mstep_batch:
  "\<exists>w'. do_mstep rt0 (w_batch\<lparr>rng := 2\<rparr>) 1
           \<lparr>LdaState.eta = 0, sstats = [[a, b], [c, d]], numdocs = 1\<rparr> False = Inr w'"
proof -
  have w: "model w_batch = m_batch" "heap w_batch = (\<lambda>_. Column [1 / 2, 1 / 2])"
    by (simp_all add: w_batch_def w0_def)
  have bl: "blend (state (model (w_batch\<lparr>rng := 2\<rparr>))) 1
              (Some \<lparr>LdaState.eta = 0, sstats = [[a, b], [c, d]], numdocs = 1\<rparr>) None
            = Inr \<lparr>LdaState.eta = 0, sstats = [[0, 0], [0, 0]], numdocs = 0\<rparr>"
    by (simp add: w m_batch_fields blend_def blend_scale_def py_truediv_def mat_iadd_def
          same_shape_def mat_scale_def mat_add_def Let_def)
  let ?st = "\<lparr>LdaState.eta = 0, sstats = [[0, 0], [0, 0]], numdocs = 0\<rparr>"
  let ?wa = "w_batch\<lparr>rng := 2\<rparr>\<lparr>model := (model (w_batch\<lparr>rng := 2\<rparr>))\<lparr>state := ?st\<rparr>\<rparr>"
  have ge: "get_Elogbeta (psi rt0) (\<lambda>_. Column [1 / 2, 1 / 2]) ?st
              = Inr [[- 1, - 1], [- 1, - 1]]"
    by (simp add: get_Elogbeta_def get_lambda_def prior_add_def dirichlet_expectation2_def
          rt0_def)
  have ge': "get_Elogbeta (psi rt0) (heap ?wa) (state (model ?wa))
              = Inr [[- 1, - 1], [- 1, - 1]]"
    by (simp add: w ge)
  have sy: "sync_state rt0 ?wa
              = Inr (?wa\<lparr>model := (model ?wa)\<lparr>expElogbeta := [[exp (- 1), exp (- 1)],
                                                        [exp (- 1), exp (- 1)]]\<rparr>\<rparr>)"
    by (simp add: sync_state_def w ge)
  let ?wb = "?wa\<lparr>model := (model ?wa)\<lparr>expElogbeta := [[exp (- 1), exp (- 1)],
                                                  [exp (- 1), exp (- 1)]]\<rparr>\<rparr>"
  have pt: "print_topics rt0 ?wb = ?wb"
    by (simp add: print_topics_def w m_batch_fields)
  have oe: "optimize_eta (model (?wb\<lparr>rho_log := rho_log ?wb @ [1]\<rparr>)) = False"
    by (simp add: w m_batch_fields)
  show ?thesis
    unfolding do_mstep_def
    apply (simp only: bl sum.case Let_def ge' sy pt oe if_False)
    apply simp
    done
qed

lemma bound_loop_batch:
  "\<exists>w'. bound_loop rt0 l_batch corpus_batch 0 (num_updates (model w_batch)) 1 0 (10 ^ 99) w_batch
          = Inr w'"
proof -
  from do_estep_batch obtain a b c d where
    e: "do_estep rt0 w_batch [[(0, 3)]]
          (Some (LdaState_init (eta (model w_batch)) (sstats (state (model w_batch)))))
        = Inr (([[1, 1]], \<lparr>LdaState.eta = 0, sstats = [[a, b], [c, d]], numdocs = 1\<rparr>),
               w_batch\<lparr>rng := 2\<rparr>)" by blast
  from do_mstep_batch [of a b c d] obtain w' where
    m: "do_mstep rt0 (w_batch\<lparr>rng := 2\<rparr>) 1
           \<lparr>LdaState.eta = 0, sstats = [[a, b], [c, d]], numdocs = 1\<rparr> False = Inr w'" by blast
  have g: "grouper corpus_batch (nat (chunksize l_batch)) = [[[(0, 3)]]]"
    by (simp add: corpus_batch_def l_batch_eq grouper.simps)
  have nu: "num_updates (model (w_batch\<lparr>rng := 2\<rparr>)) = 0"
    by (simp add: w_batch_def m_batch_fields)
  have oa: "optimize_alpha (model w_batch) = False"
    by (simp add: w_batch_def m_batch_fields)
  have mc: "mstep_call rt0 l_batch 0 \<lparr>LdaState.eta = 0, sstats = [[a, b], [c, d]], numdocs = 1\<rparr>
              (w_batch\<lparr>rng := 2\<rparr>) = Inr w'"
    by (simp add: mstep_call_def rho_batch [OF nu] m)
  have ed: "eval_due l_batch r k = False" for r k
    by (simp add: eval_due_def l_batch_eq)
  have md: "mstep_due l_batch k = False" for k
    by (simp add: mstep_due_def l_batch_eq)
  have cl: "chunk_loop rt0 l_batch 0 [[[(0, 3)]]] 0
              (LdaState_init (eta (model w_batch)) (sstats (state (model w_batch))), False, 0, None)
              w_batch
            = Inr ((\<lparr>LdaState.eta = 0, sstats = [[a, b], [c, d]], numdocs = 1\<rparr>, True, 1, None),
                   w_batch\<lparr>rng := 2\<rparr>)"
    by (simp add: ed md e oa Let_def)
  have lc: "lencorpus l_batch = 1" by (simp add: l_batch_eq)
  have body: "bound_iteration_body rt0 l_batch corpus_batch 0 (num_updates (model w_batch)) 0 w_batch
            = Inr (None, w')"
    unfolding bound_iteration_body_def Let_def
    by (simp add: g cl lc mc del: chunk_loop.simps)
  have "bound_loop rt0 l_batch corpus_batch 0 (num_updates (model w_batch)) (Suc 0) 0 (10 ^ 99) w_batch
          = Inr w'"
    by (simp add: body)
  then show ?thesis by auto
qed

lemma mstep_call_batch:
  "\<exists>w'. mstep_call rt0 l_batch 0 \<lparr>LdaState.eta = 0, sstats = [[a, b], [c, d]], numdocs = 1\<rparr>
              (w_batch\<lparr>rng := 2\<rparr>) = Inr w'"
proof -
  have nu: "num_updates (model (w_batch\<lparr>rng := 2\<rparr>)) = 0"
    by (simp add: w_batch_def m_batch_fields)
  from do_mstep_batch [of a b c d] show ?thesis
    by (simp add: mstep_call_def rho_batch [OF nu])
qed

lemma body_sched_batch:
  "body_sched rt0 l_batch 0 (map length (grouper corpus_batch (nat (chunksize l_batch))))
     (num_updates (model w_batch)) = [Inr 1]"
proof -
  have g: "grouper corpus_batch (nat (chunksize l_batch)) = [[[(0, 3)]]]"
    by (simp add: corpus_batch_def l_batch_eq grouper.simps)
  have md: "mstep_due l_batch k = False" for k
    by (simp add: mstep_due_def l_batch_eq)
  have nu: "num_updates (model w_batch) = 0" by (simp add: w_batch_def m_batch_fields)
  have r: "rho_at rt0 l_batch 0 0 = Inr 1"
    by (simp add: rho_at_def l_batch_eq py_div_int_def rt0_def py_pow_def)
  show ?thesis
    by (simp add: g nu body_sched_def md r)
qed

text \<open>
  The witness: a batch run over a corpus of one document, whose single M-step logs the
  learning rate \<open>1\<close>, and the formula of the specification under Python 3.
\<close>

theorem rho_schedule_witness:
  "rho rt0 l_batch 0 w_batch = Inr 1
   \<and> rho (rt0\<lparr>python := Python3\<rparr>) l_online 1 w_online = Inr (rho_formula 1 1 3 2 1)
   \<and> (\<exists>w'. mstep_call rt0 l_batch 0 \<lparr>LdaState.eta = 0, sstats = [[0, 0], [0, 0]], numdocs = 1\<rparr>
                (w_batch\<lparr>rng := 2\<rparr>) = Inr w' \<and> rho_log w' = [1])
   \<and> (\<exists>w' rss. bound_loop rt0 l_batch corpus_batch 0 (num_updates (model w_batch)) 1 0 (10 ^ 99)
                   w_batch = Inr w'
         \<and> (rss = [] \<or> rss = [[1]]) \<and> rho_log w' = concat rss)"
proof -
  note t = rho_schedule [of l_batch 0 rt0 w_batch corpus_batch]
  note t2 = rho_schedule [of l_batch 0 rt0 "w_batch\<lparr>rng := 2\<rparr>" corpus_batch]
  note t3 = rho_schedule [of l_online 1 "rt0\<lparr>python := Python3\<rparr>" w_online corpus_batch]
  have nu: "num_updates (model w_batch) = 0" by (simp add: w_batch_def m_batch_fields)
  have lg: "rho_log w_batch = []" "rho_log (w_batch\<lparr>rng := 2\<rparr>) = []"
    by (simp_all add: w_batch_def w0_def)
  have 1: "rho rt0 l_batch 0 w_batch = Inr 1"
    using t by (simp add: nu l_batch_eq rt0_def int_quotient_def)
  have 2: "rho (rt0\<lparr>python := Python3\<rparr>) l_online 1 w_online = Inr (rho_formula 1 1 3 2 1)"
  proof -
    have f: "offset l_online = 1" "chunksize l_online = 2" "decay l_online = 1"
      "num_updates (model w_online) = 3" "python (rt0\<lparr>python := Python3\<rparr>) = Python3"
      by (simp_all add: l_online_def w_online_def w0_def m0_def)
    have h: "chunksize l_online \<noteq> 0 \<and>
      0 < offset l_online + real 1
          + int_quotient (python (rt0\<lparr>python := Python3\<rparr>)) (num_updates (model w_online))
              (chunksize l_online)"
      by (simp add: f int_quotient_def)
    from t3 h f(5) have "rho (rt0\<lparr>python := Python3\<rparr>) l_online 1 w_online
      = Inr (rho_formula (offset l_online) 1 (num_updates (model w_online)) (chunksize l_online)
               (decay l_online))" by blast
    then show ?thesis by (simp only: f)
  qed
  have 3: "\<exists>w'. mstep_call rt0 l_batch 0
                \<lparr>LdaState.eta = 0, sstats = [[0, 0], [0, 0]], numdocs = 1\<rparr>
                (w_batch\<lparr>rng := 2\<rparr>) = Inr w' \<and> rho_log w' = [1]"
  proof -
    from mstep_call_batch [of 0 0 0 0] obtain w' where
      m: "mstep_call rt0 l_batch 0 \<lparr>LdaState.eta = 0, sstats = [[0, 0], [0, 0]], numdocs = 1\<rparr>
              (w_batch\<lparr>rng := 2\<rparr>) = Inr w'" by blast
    have r: "rho rt0 l_batch 0 (w_batch\<lparr>rng := 2\<rparr>) = Inr 1"
      by (rule rho_batch) (simp add: nu)
    from t2 m r lg have "rho_log w' = [1]" by auto
    with m show ?thesis by blast
  qed
  have 4: "\<exists>w' rss. bound_loop rt0 l_batch corpus_batch 0 (num_updates (model w_batch)) 1 0 (10 ^ 99)
                   w_batch = Inr w'
         \<and> (rss = [] \<or> rss = [[1]]) \<and> rho_log w' = concat rss"
  proof -
    from bound_loop_batch obtain w' where
      b: "bound_loop rt0 l_batch corpus_batch 0 (num_updates (model w_batch)) 1 0 (10 ^ 99)
            w_batch = Inr w'" by blast
    from t b obtain rss where
      r: "length rss \<le> 1"
      "\<forall>rs\<in>set rss. map Inr rs
          = body_sched rt0 l_batch 0 (map length (grouper corpus_batch (nat (chunksize l_batch))))
              (num_updates (model w_batch))"
      "rho_log w' = rho_log w_batch @ concat rss" by blast
    from r(2) have a: "\<forall>rs\<in>set rss. rs = [1]"
      by (auto simp: body_sched_batch map_eq_Cons_conv)
    have "rss = [] \<or> rss = [[1]]"
    proof (cases rss)
      case Nil then show ?thesis by simp
    next
      case (Cons x xs)
      with r(1) have "xs = []" by simp
      with Cons a show ?thesis by simp
    qed
    with b r(3) lg show ?thesis by auto
  qed
  from 1 2 3 4 show ?thesis by blast
qed

text \<open>
  C6 as stated fails under Python 2: in pass 1, with \<open>num_updates = 3\<close>,
  \<open>chunksize = 2\<close>, \<open>offset = 1\<close> and \<open>decay = 1\<close>, \<^verbatim>\<open>rho()\<close> is
  \<open>(1 + 1 + 1)\<^sup>-\<^sup>1 = 1/3\<close>, while the stated formula gives
  \<open>(1 + 1 + 3/2)\<^sup>-\<^sup>1 = 2/7\<close>.
\<close>

theorem rho_formula_counterexample:
  "rho rt0 l_online 1 w_online = Inr (1 / 3) \<and> rho_formula (offset l_online) 1 (num_updates (model w_online)) (chunksize l_online) (decay l_online) = 2 / 7"
proof -
  have "rho rt0 l_online 1 w_online = Inr (1 / 3)"
    by (simp add: rho_def py_div_int_def py_pow_def rt0_def l_online_def w_online_def w0_def m0_def
          powr_minus inverse_eq_divide)
  moreover have "rho_formula (offset l_online) 1 (num_updates (model w_online)) (chunksize l_online) (decay l_online) = 2 / 7"
    by (simp add: rho_formula_def l_online_def w_online_def w0_def m0_def powr_minus inverse_eq_divide)
  ultimately show ?thesis by simp
qed

end
